theory Spec2Isabelle
  imports
    Main
    "HOL-Library.Word"
    "HOL-Library.Char_ord"
    "HOL-Library.List_Lexorder"
    "HOL-Library.Sublist"
begin

section \<open>Python strings, formatting and paths\<close>

text \<open>
  File names, paths and messages are \<^typ>\<open>string\<close>s; a character stands for one code
  point below 256. File contents are lists of bytes. The order on strings is the
  lexicographic order on character codes, which is the order Python's \<^verbatim>\<open>sorted\<close> uses on
  \<^verbatim>\<open>str\<close>. Paths follow \<^verbatim>\<open>posixpath\<close> on Linux.
\<close>

type_synonym byte = "8 word"
type_synonym bytes = "byte list"

text \<open>\<^verbatim>\<open>s.startswith(p)\<close> and \<^verbatim>\<open>s.endswith(x)\<close>.\<close>

definition startswith :: "string \<Rightarrow> string \<Rightarrow> bool" where
  "startswith s p = (take (length p) s = p)"

definition endswith :: "string \<Rightarrow> string \<Rightarrow> bool" where
  "endswith s x = (length x \<le> length s \<and> drop (length s - length x) s = x)"

text \<open>\<^verbatim>\<open>s.endswith(tuple)\<close>: true when some element of the tuple is a suffix.\<close>

definition endswith_any :: "string \<Rightarrow> string list \<Rightarrow> bool" where
  "endswith_any s xs = list_ex (endswith s) xs"

text \<open>\<^verbatim>\<open>sub in s\<close> on strings.\<close>

fun str_contains :: "string \<Rightarrow> string \<Rightarrow> bool" where
  "str_contains sub [] = (sub = [])"
| "str_contains sub (c # cs) = (startswith (c # cs) sub \<or> str_contains sub cs)"

text \<open>\<^verbatim>\<open>s.split(sep)\<close> for a one-character separator, and \<^verbatim>\<open>sep.join(parts)\<close>.\<close>

fun str_split :: "char \<Rightarrow> string \<Rightarrow> string list" where
  "str_split sep [] = [[]]"
| "str_split sep (c # cs) =
     (if c = sep then [] # str_split sep cs
      else (case str_split sep cs of
              [] \<Rightarrow> [[c]]
            | w # ws \<Rightarrow> (c # w) # ws))"

fun str_join :: "string \<Rightarrow> string list \<Rightarrow> string" where
  "str_join sep [] = []"
| "str_join sep [x] = x"
| "str_join sep (x # y # ys) = x @ sep @ str_join sep (y # ys)"

text \<open>
  \<^verbatim>\<open>f"{n:03d}"\<close> for a non-negative \<^verbatim>\<open>n\<close>: the decimal digits of \<^verbatim>\<open>n\<close>, padded with
  zeros on the left to a width of at least three. A number of four or more digits is
  printed in full.
\<close>

definition digit_char :: "nat \<Rightarrow> char" where
  "digit_char d = char_of (48 + d)"

fun decimal :: "nat \<Rightarrow> string" where
  "decimal n = (if n < 10 then [digit_char n] else decimal (n div 10) @ [digit_char (n mod 10)])"

declare decimal.simps [simp del]

definition fmt03d :: "nat \<Rightarrow> string" where
  "fmt03d n = replicate (3 - length (decimal n)) (CHR ''0'') @ decimal n"

text \<open>\<^verbatim>\<open>os.path.basename\<close>, \<^verbatim>\<open>os.path.dirname\<close> and \<^verbatim>\<open>os.path.join\<close>.\<close>

definition os_path_basename :: "string \<Rightarrow> string" where
  "os_path_basename p = rev (takeWhile (\<lambda>c. c \<noteq> CHR ''/'') (rev p))"

definition os_path_dirname :: "string \<Rightarrow> string" where
  "os_path_dirname p =
     (let head = take (length p - length (os_path_basename p)) p
      in if head \<noteq> [] \<and> head \<noteq> replicate (length head) (CHR ''/'')
         then rev (dropWhile (\<lambda>c. c = CHR ''/'') (rev head))
         else head)"

definition os_path_join :: "string \<Rightarrow> string \<Rightarrow> string" where
  "os_path_join a b =
     (if startswith b ''/'' then b
      else if a = [] \<or> endswith a ''/'' then a @ b
      else a @ ''/'' @ b)"

text \<open>
  \<^verbatim>\<open>os.path.normpath\<close> and \<^verbatim>\<open>os.path.abspath\<close>; \<open>cwd\<close> is the current working directory,
  which \<^verbatim>\<open>abspath\<close> puts in front of a relative path.
\<close>

fun normpath_loop :: "nat \<Rightarrow> string list \<Rightarrow> string list \<Rightarrow> string list" where
  "normpath_loop initial_slashes [] new_comps = new_comps"
| "normpath_loop initial_slashes (component # comps) new_comps =
     (if component = [] \<or> component = ''.'' then normpath_loop initial_slashes comps new_comps
      else if component \<noteq> ''..'' \<or> (initial_slashes = 0 \<and> new_comps = [])
                \<or> (new_comps \<noteq> [] \<and> last new_comps = ''..'')
           then normpath_loop initial_slashes comps (new_comps @ [component])
      else if new_comps \<noteq> [] then normpath_loop initial_slashes comps (butlast new_comps)
      else normpath_loop initial_slashes comps new_comps)"

definition os_path_normpath :: "string \<Rightarrow> string" where
  "os_path_normpath path =
     (if path = [] then ''.''
      else
        let initial_slashes =
              (if startswith path ''/''
               then (if startswith path ''//'' \<and> \<not> startswith path ''///'' then 2 else 1)
               else (0::nat));
            comps = normpath_loop initial_slashes (str_split (CHR ''/'') path) [];
            path' = replicate initial_slashes (CHR ''/'') @ str_join ''/'' comps
        in if path' = [] then ''.'' else path')"

definition os_path_abspath :: "string \<Rightarrow> string \<Rightarrow> string" where
  "os_path_abspath cwd path =
     os_path_normpath (if startswith path ''/'' then path else os_path_join cwd path)"

section \<open>Errors\<close>

text \<open>
  Every exception the modelled functions raise is a value. The constructors keep the
  exception class of the source and the data its message is built from.
\<close>

datatype py_error =
    SourceFileNotFound string
      \<comment> \<open>\<^verbatim>\<open>FileNotFoundError\<close> raised by \<^verbatim>\<open>split_file\<close>: the file to split does not exist\<close>
  | OverflowError
      \<comment> \<open>an \<^verbatim>\<open>int\<close> that does not fit the C type \<^verbatim>\<open>ssize_t\<close>\<close>
  | ReadLengthValueError
      \<comment> \<open>\<^verbatim>\<open>ValueError\<close> of \<^verbatim>\<open>f.read(n)\<close> for \<^verbatim>\<open>n < -1\<close>\<close>
  | MemoryError
  | EmbeddedNullValueError
      \<comment> \<open>\<^verbatim>\<open>ValueError\<close> of a system call on a path that holds a null character\<close>
  | OSFileNotFoundError string
      \<comment> \<open>\<^verbatim>\<open>FileNotFoundError\<close> of a system call on the path\<close>
  | NameTooLongError string
      \<comment> \<open>the error of a system call on a path that is too long\<close>
  | IsADirectoryError string
  | NotADirectoryError string
  | OSError string
      \<comment> \<open>any other \<^verbatim>\<open>OSError\<close>, with its message\<close>
  | RelpathValueError
      \<comment> \<open>\<^verbatim>\<open>ValueError\<close> of \<^verbatim>\<open>os.path.relpath\<close> on an empty path\<close>
  | FragmentWriteIOError nat "string list"
      \<comment> \<open>\<^verbatim>\<open>IOError\<close> of \<^verbatim>\<open>split_file\<close>: number of failed writes and their base names\<close>
  | FragmentsDirNotFound string
      \<comment> \<open>\<^verbatim>\<open>FileNotFoundError\<close>: the fragments directory is not a directory\<close>
  | NoFragmentsFound string string
      \<comment> \<open>\<^verbatim>\<open>FileNotFoundError\<close> of \<^verbatim>\<open>merge_files\<close>: no entry passed the filter\<close>
  | FragmentReadIOError string
      \<comment> \<open>\<^verbatim>\<open>IOError\<close> of \<^verbatim>\<open>merge_files\<close>: reading this fragment failed\<close>
  | UsbMakedirsIOError string
      \<comment> \<open>\<^verbatim>\<open>IOError\<close> of \<^verbatim>\<open>copy_fragments_to_usb\<close>: the target directory cannot be made\<close>
  | FragmentCopyIOError nat "string list"
      \<comment> \<open>\<^verbatim>\<open>IOError\<close> of \<^verbatim>\<open>copy_fragments_to_usb\<close>: number of failed copies and their base names\<close>
  | BackupFileNotFound string
      \<comment> \<open>\<^verbatim>\<open>FileNotFoundError\<close> raised by \<^verbatim>\<open>restore_from_archive\<close>\<close>
  | BadPasswordValueError
      \<comment> \<open>the \<^verbatim>\<open>ValueError\<close> raised for a wrong password or a corrupt file\<close>
  | BadZipValueError
      \<comment> \<open>the \<^verbatim>\<open>ValueError\<close> raised for an invalid ZIP file\<close>
  | RuntimeError string
      \<comment> \<open>a \<^verbatim>\<open>RuntimeError\<close> of the archive library, with its message\<close>
  | BadZipFile
      \<comment> \<open>\<^verbatim>\<open>pyzipper.zipfile.BadZipFile\<close>\<close>
  | OtherException string
      \<comment> \<open>any other \<^verbatim>\<open>Exception\<close>\<close>

text \<open>The errors that are instances of \<^verbatim>\<open>OSError\<close>.\<close>

fun is_os_error :: "py_error \<Rightarrow> bool" where
  "is_os_error (OSFileNotFoundError p) = True"
| "is_os_error (NameTooLongError p) = True"
| "is_os_error (IsADirectoryError p) = True"
| "is_os_error (NotADirectoryError p) = True"
| "is_os_error (OSError m) = True"
| "is_os_error e = False"

section \<open>The file system and the operating system\<close>

text \<open>
  A directory is a map from entry names to nodes: a regular file with its content, or a
  subdirectory.
\<close>

datatype node = File bytes | Dir

type_synonym directory = "string \<rightharpoonup> node"

text \<open>
  What the operating system decides and the model cannot see: whether it lets a
  directory be made, a file be opened, a buffer be allocated, a unit of work write, read or
  copy a file, and whether two different paths name the same file. An error given here is
  the one the call raises.
\<close>

record os_env =
  makedirs_error :: "string \<Rightarrow> py_error option"
  open_read_error :: "string \<Rightarrow> py_error option"
  read_buffer_error :: "int \<Rightarrow> py_error option"
  write_fails :: "string \<Rightarrow> bool"
  open_write_error :: "string \<Rightarrow> py_error option"
  read_fails :: "string \<Rightarrow> bool"
  same_file :: "string \<Rightarrow> string \<Rightarrow> bool"
  copy_fails :: "string \<Rightarrow> string \<Rightarrow> bool"

text \<open>
  What every system call on a path refuses, whatever the state of the file system: a path
  with a null character, the empty path, a path of 4096 bytes or more, a path with a
  component of more than 255 bytes. A character from 128 on takes two bytes in the file
  system encoding.
\<close>

definition utf8_length :: "string \<Rightarrow> nat" where
  "utf8_length s = length s + length (filter (\<lambda>c. 128 \<le> (of_char c :: nat)) s)"

definition path_error :: "string \<Rightarrow> py_error option" where
  "path_error p =
     (if CHR 0x00 \<in> set p then Some EmbeddedNullValueError
      else if p = [] then Some (OSFileNotFoundError p)
      else if 4096 \<le> utf8_length p
              \<or> list_ex (\<lambda>c. 255 < utf8_length c) (str_split (CHR ''/'') p)
      then Some (NameTooLongError p)
      else None)"

text \<open>A path whose last component is empty, \<^verbatim>\<open>.\<close> or \<^verbatim>\<open>..\<close> can only name a directory.\<close>

definition names_directory :: "string \<Rightarrow> bool" where
  "names_directory p =
     (os_path_basename p = [] \<or> os_path_basename p = ''.'' \<or> os_path_basename p = ''..'')"

text \<open>\<^verbatim>\<open>os.makedirs(p, exist_ok=True)\<close>: the error it raises, if any.\<close>

definition os_makedirs :: "os_env \<Rightarrow> string \<Rightarrow> py_error option" where
  "os_makedirs env p =
     (case path_error p of
        Some e \<Rightarrow> Some e
      | None \<Rightarrow> makedirs_error env p)"

text \<open>
  \<^verbatim>\<open>os.path.exists(p)\<close>, \<^verbatim>\<open>os.path.isdir(p)\<close> and \<^verbatim>\<open>os.path.isfile(p)\<close>, given the node at
  \<open>p\<close> (\<open>None\<close>: nothing is there). They return \<^verbatim>\<open>False\<close> where the system call fails.
\<close>

definition os_path_exists :: "string \<Rightarrow> node option \<Rightarrow> bool" where
  "os_path_exists p n =
     (path_error p = None \<and>
      (case n of
         None \<Rightarrow> False
       | Some Dir \<Rightarrow> True
       | Some (File c) \<Rightarrow> \<not> names_directory p))"

definition os_path_isfile :: "string \<Rightarrow> node option \<Rightarrow> bool" where
  "os_path_isfile p n =
     (path_error p = None \<and>
      (case n of
         None \<Rightarrow> False
       | Some Dir \<Rightarrow> False
       | Some (File c) \<Rightarrow> \<not> names_directory p))"

text \<open>\<^verbatim>\<open>open(p, 'rb')\<close> followed by reading: the content of the file, or the error.\<close>

definition open_rb :: "os_env \<Rightarrow> string \<Rightarrow> node option \<Rightarrow> py_error + bytes" where
  "open_rb env p n =
     (case path_error p of
        Some e \<Rightarrow> Inl e
      | None \<Rightarrow>
          (case n of
             None \<Rightarrow> Inl (OSFileNotFoundError p)
           | Some Dir \<Rightarrow> Inl (IsADirectoryError p)
           | Some (File c) \<Rightarrow>
               if names_directory p then Inl (NotADirectoryError p)
               else (case open_read_error env p of
                       Some e \<Rightarrow> Inl e
                     | None \<Rightarrow> Inr c)))"

text \<open>\<^verbatim>\<open>open(p, 'wb')\<close>: the error it raises, if any.\<close>

definition open_wb :: "os_env \<Rightarrow> string \<Rightarrow> py_error option" where
  "open_wb env p =
     (case path_error p of
        Some e \<Rightarrow> Some e
      | None \<Rightarrow> if names_directory p then Some (IsADirectoryError p) else open_write_error env p)"

section \<open>The fragmenter: \<^verbatim>\<open>split_file\<close>\<close>

text \<open>
  \<^verbatim>\<open>f_in.read(n)\<close> on a file opened with \<^verbatim>\<open>open(path, 'rb')\<close>, as a function of the bytes
  not yet read: it returns the chunk and the bytes left. The length is converted to the C
  type \<^verbatim>\<open>ssize_t\<close> of 64 bits first; \<^verbatim>\<open>read(-1)\<close> reads to the end of the file, a length below
  \<^verbatim>\<open>-1\<close> raises \<^verbatim>\<open>ValueError\<close>, \<^verbatim>\<open>read(0)\<close> returns the empty chunk, and any other read
  needs a buffer, which the system may refuse.
\<close>

definition file_read :: "os_env \<Rightarrow> int \<Rightarrow> bytes \<Rightarrow> py_error + (bytes \<times> bytes)" where
  "file_read env n rest =
     (if n < - (2 ^ 63) \<or> 2 ^ 63 \<le> n then Inl OverflowError
      else if n < - 1 then Inl ReadLengthValueError
      else if n = 0 then Inr ([], rest)
      else (case read_buffer_error env n of
              Some e \<Rightarrow> Inl e
            | None \<Rightarrow>
                if n = - 1 then Inr (rest, [])
                else Inr (take (nat n) rest, drop (nat n) rest)))"

text \<open>The name of fragment number \<open>k\<close>: \<^verbatim>\<open>f"{base_filename}.part{file_number:03d}"\<close>.\<close>

definition fragment_name :: "string \<Rightarrow> nat \<Rightarrow> string" where
  "fragment_name base_filename file_number = base_filename @ ''.part'' @ fmt03d file_number"

text \<open>
  The reading loop of \<^verbatim>\<open>split_file\<close>. Its state is the unread rest of the input, the
  counter \<^verbatim>\<open>file_number\<close> and the list \<^verbatim>\<open>tasks\<close>; a task is the pair of arguments of the
  delayed call \<^verbatim>\<open>write_fragment(chunk, fragment_path)\<close>.
\<close>

function split_loop ::
  "os_env \<Rightarrow> int \<Rightarrow> string \<Rightarrow> string \<Rightarrow> bytes \<Rightarrow> nat \<Rightarrow> (bytes \<times> string) list
     \<Rightarrow> py_error + (bytes \<times> string) list" where
  "split_loop env fragment_size_bytes fragments_dir_local base_filename rest file_number tasks =
     (case file_read env fragment_size_bytes rest of
        Inl e \<Rightarrow> Inl e
      | Inr (chunk, rest') \<Rightarrow>
          if chunk = [] then Inr tasks
          else split_loop env fragment_size_bytes fragments_dir_local base_filename rest'
                 (file_number + 1)
                 (tasks @ [(chunk, os_path_join fragments_dir_local
                                     (fragment_name base_filename (file_number + 1)))]))"
  by pat_completeness auto
termination
proof (relation "measure (\<lambda>(env, n, d, b, rest, k, ts). length rest)")
  show "wf (measure (\<lambda>(env, n, d, b, rest, k, ts). length rest))" by simp
next
  fix env :: os_env and fragment_size_bytes :: int and fragments_dir_local base_filename :: string
    and rest :: bytes and file_number :: nat and tasks :: "(bytes \<times> string) list"
    and x2 :: "bytes \<times> bytes" and chunk rest' :: bytes
  assume r: "file_read env fragment_size_bytes rest = Inr x2" and x: "(chunk, rest') = x2"
    and c: "chunk \<noteq> []"
  from r x c have "length rest' < length rest"
    by (auto simp: file_read_def split: if_splits option.splits)
  then show "((env, fragment_size_bytes, fragments_dir_local, base_filename, rest',
                file_number + 1,
                tasks @ [(chunk, os_path_join fragments_dir_local
                                   (fragment_name base_filename (file_number + 1)))]),
              (env, fragment_size_bytes, fragments_dir_local, base_filename, rest,
                file_number, tasks))
             \<in> measure (\<lambda>(env, n, d, b, rest, k, ts). length rest)"
    by simp
qed

declare split_loop.simps [simp del]

text \<open>
  The delayed unit \<^verbatim>\<open>write_fragment\<close>, run on the fragments directory \<open>d\<close>. Opening the
  fragment path for writing fails when the path is one the system refuses or names a
  directory, or when the system refuses the write; the unit catches the exception and
  returns the path with \<^verbatim>\<open>False\<close>. The entry written through \<^verbatim>\<open>open(fragment_path, 'wb')\<close>
  is the one named by the last component of the path.
\<close>

definition write_unit_fails :: "os_env \<Rightarrow> directory \<Rightarrow> string \<Rightarrow> bool" where
  "write_unit_fails env d fragment_path =
     (path_error fragment_path \<noteq> None \<or> names_directory fragment_path
      \<or> d (os_path_basename fragment_path) = Some Dir \<or> write_fails env fragment_path)"

definition write_fragment :: "os_env \<Rightarrow> directory \<Rightarrow> bytes \<times> string \<Rightarrow> string \<times> bool" where
  "write_fragment env d task = (snd task, \<not> write_unit_fails env d (snd task))"

definition store_fragment :: "directory \<Rightarrow> bytes \<times> string \<Rightarrow> directory" where
  "store_fragment d task = d(os_path_basename (snd task) \<mapsto> File (fst task))"

definition store_fragments :: "(bytes \<times> string) list \<Rightarrow> directory \<Rightarrow> directory" where
  "store_fragments tasks d = foldl store_fragment d tasks"

text \<open>
  \<^verbatim>\<open>split_file\<close>. \<open>source\<close> is the node at \<^verbatim>\<open>large_file_path\<close>; \<open>frags\<close> holds the entries of
  \<^verbatim>\<open>fragments_dir_local\<close> before the call (empty when \<^verbatim>\<open>os.makedirs\<close> creates it). The units
  write to different paths, so the directory they leave does not depend on the order in
  which the scheduler runs them; \<^verbatim>\<open>dask.compute\<close> returns the results in the order of the
  tasks. The result is the returned path with the directory after the writes.
\<close>

definition split_file ::
  "os_env \<Rightarrow> node option \<Rightarrow> directory \<Rightarrow> string \<Rightarrow> string \<Rightarrow> int
     \<Rightarrow> py_error + (string \<times> directory)" where
  "split_file env source frags large_file_path fragments_dir_local fragment_size_bytes =
     (if \<not> os_path_exists large_file_path source
      then Inl (SourceFileNotFound large_file_path)
      else
        (case os_makedirs env fragments_dir_local of
           Some e \<Rightarrow> Inl e
         | None \<Rightarrow>
             (case open_rb env large_file_path source of
                Inl e \<Rightarrow> Inl e
              | Inr content \<Rightarrow>
                  (case split_loop env fragment_size_bytes fragments_dir_local
                          (os_path_basename large_file_path) content 0 [] of
                     Inl e \<Rightarrow> Inl e
                   | Inr tasks \<Rightarrow>
                       if tasks \<noteq> [] then
                         let results = map (write_fragment env frags) tasks;
                             num_failed = length (filter (\<lambda>r. \<not> snd r) results)
                         in if num_failed > 0
                            then Inl (FragmentWriteIOError num_failed
                                       (map (\<lambda>r. os_path_basename (fst r))
                                          (filter (\<lambda>r. \<not> snd r) results)))
                            else Inr (fragments_dir_local, store_fragments tasks frags)
                       else Inr (fragments_dir_local, frags)))))"

section \<open>The merger: \<^verbatim>\<open>merge_files\<close>\<close>

text \<open>The tuple \<^verbatim>\<open>tuple(f".part{i:03d}" for i in range(1000))\<close>.\<close>

definition part_suffixes :: "string list" where
  "part_suffixes = map (\<lambda>i. ''.part'' @ fmt03d i) [0..<1000]"

text \<open>The filter of the list comprehension of \<^verbatim>\<open>merge_files\<close>.\<close>

definition is_fragment :: "string \<Rightarrow> string \<Rightarrow> bool" where
  "is_fragment base_filename_with_ext f =
     (startswith f base_filename_with_ext \<and> endswith_any f part_suffixes)"

text \<open>
  The list \<^verbatim>\<open>fragment_paths\<close>: the selected entries of the listing, joined to the directory
  and sorted as strings.
\<close>

definition select_fragment_paths :: "string \<Rightarrow> string \<Rightarrow> string list \<Rightarrow> string list" where
  "select_fragment_paths fragments_source_dir base_filename_with_ext listing =
     sort (map (os_path_join fragments_source_dir)
             (filter (is_fragment base_filename_with_ext) listing))"

text \<open>
  Reading one fragment of the directory \<open>d\<close>: its bytes, or \<open>None\<close> when the open or the
  read raises.
\<close>

definition read_fragment :: "os_env \<Rightarrow> directory \<Rightarrow> string \<Rightarrow> bytes option" where
  "read_fragment env d frag_path =
     (if path_error frag_path \<noteq> None \<or> names_directory frag_path \<or> read_fails env frag_path
      then None
      else (case d (os_path_basename frag_path) of
              Some (File b) \<Rightarrow> Some b
            | Some Dir \<Rightarrow> None
            | None \<Rightarrow> None))"

text \<open>
  The copy loop: every fragment path is opened and its bytes are appended to the output. A
  failure is raised as \<^verbatim>\<open>IOError\<close> and ends the loop.
\<close>

fun copy_fragments ::
  "os_env \<Rightarrow> directory \<Rightarrow> string list \<Rightarrow> bytes \<Rightarrow> py_error + bytes" where
  "copy_fragments env d [] f_out = Inr f_out"
| "copy_fragments env d (frag_path # ps) f_out =
     (case read_fragment env d frag_path of
        None \<Rightarrow> Inl (FragmentReadIOError frag_path)
      | Some b \<Rightarrow> copy_fragments env d ps (f_out @ b))"

text \<open>
  Whether the output path names the same file as a fragment path: it does when the two
  paths are equal, or when the system says that the two different paths name one file.
\<close>

definition aliases :: "os_env \<Rightarrow> string \<Rightarrow> string \<Rightarrow> bool" where
  "aliases env output_file_path frag_path =
     (output_file_path = frag_path \<or> same_file env output_file_path frag_path)"

text \<open>
  \<^verbatim>\<open>merge_files\<close>. \<open>frags\<close> holds the entries of \<^verbatim>\<open>fragments_source_dir\<close>, \<open>None\<close> when it
  is not a directory; \<open>listdir\<close> is what \<^verbatim>\<open>os.listdir\<close> returns or raises. The result is the
  exception raised or the content written to the output file. When the output file is one
  of the selected fragments, opening it truncates that fragment before it is read and
  the copy reads what it writes: this run is not described, the result is \<open>None\<close>.
\<close>

definition merge_files ::
  "os_env \<Rightarrow> directory option \<Rightarrow> py_error + string list \<Rightarrow> string \<Rightarrow> string \<Rightarrow> string
     \<Rightarrow> (py_error + bytes) option" where
  "merge_files env frags listdir fragments_source_dir base_filename_with_ext output_file_path =
     (case frags of
        None \<Rightarrow> Some (Inl (FragmentsDirNotFound fragments_source_dir))
      | Some d \<Rightarrow>
          if path_error fragments_source_dir \<noteq> None
          then Some (Inl (FragmentsDirNotFound fragments_source_dir))
          else
            (case listdir of
               Inl e \<Rightarrow> Some (Inl e)
             | Inr listing \<Rightarrow>
                 let fragment_paths =
                       select_fragment_paths fragments_source_dir base_filename_with_ext listing
                 in if fragment_paths = []
                    then Some (Inl (NoFragmentsFound base_filename_with_ext fragments_source_dir))
                    else
                      (case os_makedirs env (os_path_dirname output_file_path) of
                         Some e \<Rightarrow> Some (Inl e)
                       | None \<Rightarrow>
                           (case open_wb env output_file_path of
                              Some e \<Rightarrow> Some (Inl e)
                            | None \<Rightarrow>
                                if list_ex (aliases env output_file_path) fragment_paths
                                then None
                                else Some (copy_fragments env d fragment_paths [])))))"

section \<open>Copying fragments to removable media: \<^verbatim>\<open>copy_fragments_to_usb\<close>\<close>

text \<open>
  The delayed unit \<^verbatim>\<open>_copy_single_fragment_to_usb_task\<close>: \<^verbatim>\<open>shutil.copy2\<close> raises when a path
  is one the system refuses, when source and destination are the same file, or when the
  system refuses the copy; the unit catches the exception and returns the destination with
  \<^verbatim>\<open>False\<close>.
\<close>

definition copy_unit_fails :: "os_env \<Rightarrow> string \<Rightarrow> string \<Rightarrow> bool" where
  "copy_unit_fails env fragment_path usb_destination_file_path =
     (path_error fragment_path \<noteq> None \<or> path_error usb_destination_file_path \<noteq> None
      \<or> fragment_path = usb_destination_file_path
      \<or> same_file env fragment_path usb_destination_file_path
      \<or> copy_fails env fragment_path usb_destination_file_path)"

definition copy_single_fragment_to_usb_task :: "os_env \<Rightarrow> string \<times> string \<Rightarrow> string \<times> bool" where
  "copy_single_fragment_to_usb_task env task =
     (snd task, \<not> copy_unit_fails env (fst task) (snd task))"

text \<open>
  \<^verbatim>\<open>copy_fragments_to_usb\<close>. \<open>src\<close> holds the entries of \<^verbatim>\<open>fragments_source_dir\<close>, \<open>None\<close>
  when it is not a directory; \<open>listdir\<close> is what \<^verbatim>\<open>os.listdir\<close> returns or raises. The result
  is the list of destination paths written.
\<close>

definition copy_fragments_to_usb ::
  "os_env \<Rightarrow> directory option \<Rightarrow> py_error + string list \<Rightarrow> string \<Rightarrow> string
     \<Rightarrow> py_error + string list" where
  "copy_fragments_to_usb env src listdir fragments_source_dir usb_target_fragments_dir =
     (case src of
        None \<Rightarrow> Inl (FragmentsDirNotFound fragments_source_dir)
      | Some d \<Rightarrow>
          if path_error fragments_source_dir \<noteq> None
          then Inl (FragmentsDirNotFound fragments_source_dir)
          else
            (case os_makedirs env usb_target_fragments_dir of
               Some e \<Rightarrow>
                 if is_os_error e then Inl (UsbMakedirsIOError usb_target_fragments_dir)
                 else Inl e
             | None \<Rightarrow>
                 (case listdir of
                    Inl e \<Rightarrow> Inl e
                  | Inr listing \<Rightarrow>
                      let tasks =
                            map (\<lambda>fragment_filename.
                                   (os_path_join fragments_source_dir fragment_filename,
                                    os_path_join usb_target_fragments_dir fragment_filename))
                              (filter (\<lambda>fragment_filename.
                                         os_path_isfile
                                           (os_path_join fragments_source_dir fragment_filename)
                                           (d fragment_filename)
                                         \<and> str_contains ''.part'' fragment_filename)
                                 listing)
                      in if tasks \<noteq> [] then
                           let results = map (copy_single_fragment_to_usb_task env) tasks;
                               num_failed = length (filter (\<lambda>r. \<not> snd r) results)
                           in if num_failed > 0
                              then Inl (FragmentCopyIOError num_failed
                                         (map (\<lambda>r. os_path_basename (fst r))
                                            (filter (\<lambda>r. \<not> snd r) results)))
                              else Inr (map fst results)
                         else Inr [])))"

section \<open>Restoring: \<^verbatim>\<open>restore_from_archive\<close>\<close>

text \<open>
  The archive library as the restore code sees it, for one archive file: the exception
  raised by opening it with \<^verbatim>\<open>AESZipFile(path, 'r')\<close>, if any; the outcome of \<^verbatim>\<open>namelist()\<close>
  after \<^verbatim>\<open>setpassword\<close> with the given password (\<open>None\<close>: no password set); and the
  exception raised in the unit of work with the given index by opening the archive and
  extracting the member, if any.
\<close>

record zip_library =
  lib_open :: "py_error option"
  lib_namelist :: "string option \<Rightarrow> py_error + string list"
  lib_extract :: "nat \<Rightarrow> string option \<Rightarrow> string \<Rightarrow> py_error option"

text \<open>What \<^verbatim>\<open>restore_from_archive\<close> and its units print, and the effects they leave.\<close>

datatype log_msg =
    Restoring
  | ZipEmpty
  | MembersFound nat
  | RunningTasks nat
  | ExtractError string
  | WarningNotExtracted nat
  | AllExtracted
  | NothingToExtract
  | RestoreCompleted
  | ExceptionDuringRestore

record restore_state =
  dirs_made :: "string list"
  dispatched :: "string list"
  results :: "(string \<times> bool) list"
  extracted :: "string list"
  printed :: "log_msg list"

definition initial_restore_state :: restore_state where
  "initial_restore_state =
     \<lparr>dirs_made = [], dispatched = [], results = [], extracted = [], printed = []\<rparr>"

text \<open>
  The delayed unit \<^verbatim>\<open>extract_single_member\<close>, with its index in the batch: any exception of
  the extraction is caught in the unit, which then returns the member name with \<^verbatim>\<open>False\<close>.
\<close>

definition extract_single_member ::
  "zip_library \<Rightarrow> string option \<Rightarrow> nat \<times> string \<Rightarrow> string \<times> bool" where
  "extract_single_member lib password_bytes unit =
     (case lib_extract lib (fst unit) password_bytes (snd unit) of
        None \<Rightarrow> (snd unit, True)
      | Some e \<Rightarrow> (snd unit, False))"

text \<open>\<^verbatim>\<open>password.encode('utf-8') if password else None\<close>.\<close>

definition encode_password :: "string option \<Rightarrow> string option" where
  "encode_password password =
     (case password of
        None \<Rightarrow> None
      | Some pw \<Rightarrow> if pw = [] then None else Some pw)"

text \<open>
  The handler around \<^verbatim>\<open>namelist()\<close> when a password is set: a \<^verbatim>\<open>RuntimeError\<close> whose
  message contains one of three texts becomes the \<^verbatim>\<open>ValueError\<close> for a wrong password
  (the second text is made of two characters beyond code 255, written here as their UTF-8
  bytes); any other exception is raised again.
\<close>

fun namelist_handler :: "py_error \<Rightarrow> py_error" where
  "namelist_handler (RuntimeError msg) =
     (if str_contains ''Bad password'' msg
         \<or> str_contains [CHR 0xC4, CHR 0x99, CHR 0xC5, CHR 0xBC] msg
         \<or> str_contains ''CRC error'' msg
      then BadPasswordValueError else RuntimeError msg)"
| "namelist_handler e = e"

definition read_member_list :: "zip_library \<Rightarrow> string option \<Rightarrow> py_error + string list" where
  "read_member_list lib password_bytes =
     (case password_bytes of
        Some pw \<Rightarrow>
          (case lib_namelist lib (Some pw) of
             Inl e \<Rightarrow> Inl (namelist_handler e)
           | Inr member_list \<Rightarrow> Inr member_list)
      | None \<Rightarrow> lib_namelist lib None)"

text \<open>
  The loop over the member list: the directory of each member is made, then its unit is
  queued. Every member gets a unit, a directory entry too. The result is the exception
  raised, if any, with the directories made and the units queued so far.
\<close>

fun prepare_members ::
  "os_env \<Rightarrow> string \<Rightarrow> string list \<Rightarrow> string list \<Rightarrow> string list
     \<Rightarrow> py_error option \<times> string list \<times> string list" where
  "prepare_members env restore_to_path [] dirs tasks = (None, dirs, tasks)"
| "prepare_members env restore_to_path (member # rest) dirs tasks =
     (let member_path = os_path_join restore_to_path member
      in if endswith member ''/'' then
           (case os_makedirs env member_path of
              Some e \<Rightarrow> (Some e, dirs, tasks)
            | None \<Rightarrow>
                prepare_members env restore_to_path rest (dirs @ [member_path]) (tasks @ [member]))
         else
           (let member_dir = os_path_dirname member_path
            in if member_dir \<noteq> [] then
                 (case os_makedirs env member_dir of
                    Some e \<Rightarrow> (Some e, dirs, tasks)
                  | None \<Rightarrow>
                      prepare_members env restore_to_path rest (dirs @ [member_dir])
                        (tasks @ [member]))
               else prepare_members env restore_to_path rest dirs (tasks @ [member])))"

text \<open>
  The outer handlers of the \<^verbatim>\<open>try\<close>: \<^verbatim>\<open>BadZipFile\<close> becomes a \<^verbatim>\<open>ValueError\<close>; any other
  exception is printed and raised again.
\<close>

fun outer_handler :: "py_error \<Rightarrow> restore_state \<Rightarrow> py_error option \<times> restore_state" where
  "outer_handler BadZipFile st = (Some BadZipValueError, st)"
| "outer_handler e st = (Some e, st\<lparr>printed := printed st @ [ExceptionDuringRestore]\<rparr>)"

text \<open>
  \<^verbatim>\<open>restore_from_archive\<close>. \<open>zip_exists\<close> tells whether something exists at
  \<^verbatim>\<open>backup_zip_path\<close>. The result is the exception raised (\<open>None\<close> when the call returns)
  and the state left behind. \<^verbatim>\<open>dask.compute\<close> returns the results in the order of the tasks.
\<close>

definition restore_from_archive ::
  "os_env \<Rightarrow> zip_library \<Rightarrow> bool \<Rightarrow> string \<Rightarrow> string \<Rightarrow> string option
     \<Rightarrow> py_error option \<times> restore_state" where
  "restore_from_archive env lib zip_exists backup_zip_path restore_to_path password =
     (if \<not> (path_error backup_zip_path = None \<and> zip_exists)
      then (Some (BackupFileNotFound backup_zip_path), initial_restore_state)
      else
        (case os_makedirs env restore_to_path of
           Some e \<Rightarrow> (Some e, initial_restore_state\<lparr>printed := [Restoring]\<rparr>)
         | None \<Rightarrow>
             let st0 = initial_restore_state\<lparr>dirs_made := [restore_to_path],
                                            printed := [Restoring]\<rparr>;
                 password_bytes = encode_password password
             in case lib_open lib of
                  Some e \<Rightarrow> outer_handler e st0
                | None \<Rightarrow>
                    (case read_member_list lib password_bytes of
                       Inl e \<Rightarrow> outer_handler e st0
                     | Inr member_list \<Rightarrow>
                         if member_list = []
                         then (None, st0\<lparr>printed := printed st0 @ [ZipEmpty]\<rparr>)
                         else
                           (case prepare_members env restore_to_path member_list [] [] of
                              (Some e, dirs, tasks) \<Rightarrow>
                                outer_handler e
                                  (st0\<lparr>dirs_made := dirs_made st0 @ dirs,
                                       printed := printed st0
                                         @ [MembersFound (length member_list)]\<rparr>)
                            | (None, dirs, delayed_extract_tasks) \<Rightarrow>
                                let st1 = st0\<lparr>dirs_made := dirs_made st0 @ dirs,
                                               printed := printed st0
                                                 @ [MembersFound (length member_list)]\<rparr>
                                in if delayed_extract_tasks \<noteq> [] then
                                     let res = map (extract_single_member lib password_bytes)
                                                 (enumerate 0 delayed_extract_tasks);
                                         num_failed = length (filter (\<lambda>r. \<not> snd r) res)
                                     in (None,
                                         st1\<lparr>dispatched := delayed_extract_tasks,
                                             results := res,
                                             extracted := map fst (filter snd res),
                                             printed := printed st1
                                               @ [RunningTasks (length delayed_extract_tasks)]
                                               @ map (\<lambda>r. ExtractError (fst r))
                                                   (filter (\<lambda>r. \<not> snd r) res)
                                               @ [if num_failed > 0
                                                  then WarningNotExtracted num_failed
                                                  else AllExtracted]
                                               @ [RestoreCompleted]\<rparr>)
                                   else (None,
                                         st1\<lparr>printed := printed st1
                                               @ [NothingToExtract, RestoreCompleted]\<rparr>)))))"

text \<open>
  The behaviour of \<^verbatim>\<open>pyzipper.AESZipFile\<close> on a well-formed archive. The central directory
  of a ZIP file is stored in clear: \<^verbatim>\<open>namelist()\<close> returns the names of the members
  whatever password was set, and \<^verbatim>\<open>setpassword\<close> only stores the password. The password
  is checked when a member is opened for extraction, which raises \<^verbatim>\<open>RuntimeError\<close> when
  the password is missing or wrong.
\<close>

record zip_archive =
  archive_members :: "string list"
  archive_password :: "string option"

definition pyzipper_extract ::
  "zip_archive \<Rightarrow> nat \<Rightarrow> string option \<Rightarrow> string \<Rightarrow> py_error option" where
  "pyzipper_extract a i pwd member =
     (if member \<notin> set (archive_members a) then Some (OtherException ''KeyError'')
      else case archive_password a of
             None \<Rightarrow> None
           | Some p \<Rightarrow>
               (case pwd of
                  None \<Rightarrow> Some (RuntimeError (''File is encrypted, password required: '' @ member))
                | Some q \<Rightarrow>
                    if q = p then None
                    else Some (RuntimeError (''Bad password for file '' @ member))))"

definition pyzipper_namelist :: "zip_archive \<Rightarrow> string option \<Rightarrow> py_error + string list" where
  "pyzipper_namelist a pwd = Inr (archive_members a)"

definition pyzipper :: "zip_archive \<Rightarrow> zip_library" where
  "pyzipper a =
     \<lparr>lib_open = None, lib_namelist = pyzipper_namelist a, lib_extract = pyzipper_extract a\<rparr>"

text \<open>
  A library for closed examples: the archive opens, \<^verbatim>\<open>namelist()\<close> returns the given
  members, and the extraction fails in the unit with index \<open>k\<close> and in no other.
\<close>

definition one_unit_fails :: "nat \<Rightarrow> string list \<Rightarrow> zip_library" where
  "one_unit_fails k members =
     \<lparr>lib_open = None,
      lib_namelist = (\<lambda>pwd. Inr members),
      lib_extract = (\<lambda>i pwd member. if i = k then Some (OSError ''No space left on device'')
                                      else None)\<rparr>"

definition ten_members :: "string list" where
  "ten_members =
     [''f01'', ''f02'', ''f03'', ''f04'', ''f05'', ''f06'', ''f07'', ''f08'', ''f09'', ''f10'']"

text \<open>An archive of two members encrypted with the password \<^verbatim>\<open>secret\<close>.\<close>

definition encrypted_archive :: zip_archive where
  "encrypted_archive =
     \<lparr>archive_members = [''a.txt'', ''b.txt''], archive_password = Some ''secret''\<rparr>"

section \<open>The archive writer: arcnames of \<^verbatim>\<open>create_backup_archive\<close>\<close>

text \<open>\<^verbatim>\<open>os.path.relpath(path, start)\<close>; an empty \<^verbatim>\<open>path\<close> raises \<^verbatim>\<open>ValueError\<close>.\<close>

fun commonprefix_len :: "'a list \<Rightarrow> 'a list \<Rightarrow> nat" where
  "commonprefix_len (x # xs) (y # ys) = (if x = y then Suc (commonprefix_len xs ys) else 0)"
| "commonprefix_len xs ys = 0"

definition os_path_relpath :: "string \<Rightarrow> string \<Rightarrow> string \<Rightarrow> py_error + string" where
  "os_path_relpath cwd path start =
     (if path = [] then Inl RelpathValueError
      else
        let start_list = filter (\<lambda>x. x \<noteq> []) (str_split (CHR ''/'') (os_path_abspath cwd start));
            path_list = filter (\<lambda>x. x \<noteq> []) (str_split (CHR ''/'') (os_path_abspath cwd path));
            i = commonprefix_len start_list path_list;
            rel_list = replicate (length start_list - i) ''..'' @ drop i path_list
        in case rel_list of
             [] \<Rightarrow> Inr ''.''
           | a # p \<Rightarrow> Inr (foldl os_path_join a p))"

text \<open>
  The inner loop of \<^verbatim>\<open>create_backup_archive\<close> over \<^verbatim>\<open>source_folders\<close>, with the variable
  \<^verbatim>\<open>matched_source_folder\<close> (\<open>None\<close> at the start).
\<close>

fun match_source_folder :: "string \<Rightarrow> string \<Rightarrow> string list \<Rightarrow> string option \<Rightarrow> string option" where
  "match_source_folder cwd filepath [] matched_source_folder = matched_source_folder"
| "match_source_folder cwd filepath (sf_raw # rest) matched_source_folder =
     (let sf = os_path_abspath cwd sf_raw
      in if startswith (os_path_abspath cwd filepath) sf
         then (case matched_source_folder of
                 None \<Rightarrow> match_source_folder cwd filepath rest (Some sf)
               | Some m \<Rightarrow>
                   if length sf > length m
                   then match_source_folder cwd filepath rest (Some sf)
                   else match_source_folder cwd filepath rest (Some m))
         else match_source_folder cwd filepath rest matched_source_folder)"

text \<open>
  The arcname computed for one file by the body of the loop over
  \<^verbatim>\<open>all_files_to_backup\<close>, the argument \<^verbatim>\<open>arcname\<close> of \<^verbatim>\<open>zf.write\<close>.
\<close>

definition arcname :: "string \<Rightarrow> string list \<Rightarrow> string \<Rightarrow> py_error + string" where
  "arcname cwd source_folders filepath =
     (case match_source_folder cwd filepath source_folders None of
        None \<Rightarrow> Inr (os_path_basename filepath)
      | Some matched_source_folder \<Rightarrow>
          if matched_source_folder \<noteq> []
          then os_path_relpath cwd filepath (os_path_dirname matched_source_folder)
          else Inr (os_path_basename filepath))"

text \<open>
  For comparison: a source folder is an ancestor of a file when the components of its
  absolute path are a proper prefix of the components of the file's absolute path.
\<close>

definition path_components :: "string \<Rightarrow> string \<Rightarrow> string list" where
  "path_components cwd p = filter (\<lambda>x. x \<noteq> []) (str_split (CHR ''/'') (os_path_abspath cwd p))"

definition is_ancestor :: "string \<Rightarrow> string \<Rightarrow> string \<Rightarrow> bool" where
  "is_ancestor cwd folder filepath =
     strict_prefix (path_components cwd folder) (path_components cwd filepath)"

section \<open>Blocks, expected fragments and named inputs\<close>

text \<open>
  The fragments the fragmenter is described to produce, for comparison with the reading
  loop: consecutive blocks of \<open>n\<close> elements, the last one possibly shorter.
\<close>

function chunks :: "nat \<Rightarrow> 'a list \<Rightarrow> 'a list list" where
  "chunks n xs = (if n = 0 \<or> xs = [] then [] else take n xs # chunks n (drop n xs))"
  by pat_completeness auto
termination
  by (relation "measure (\<lambda>(n, xs). length xs)") auto

declare chunks.simps [simp del]

text \<open>
  The directory \<^verbatim>\<open>split_file\<close> is expected to leave: the entries it found, with fragment
  number \<open>i\<close> (counted from 1) a regular file holding the \<open>i\<close>-th block of the input.
\<close>

definition expected_fragments :: "directory \<Rightarrow> string \<Rightarrow> nat \<Rightarrow> bytes \<Rightarrow> directory" where
  "expected_fragments frags base_filename n content =
     frags ++ map_of (zip (map (\<lambda>i. fragment_name base_filename (Suc i))
                                [0..<length (chunks n content)])
                          (map File (chunks n content)))"

text \<open>An operating system that refuses nothing and where different paths name different files.\<close>

definition no_error :: "'a \<Rightarrow> py_error option" where
  "no_error p = None"

definition never :: "string \<Rightarrow> bool" where
  "never p = False"

definition never2 :: "string \<Rightarrow> string \<Rightarrow> bool" where
  "never2 p q = False"

definition friendly_os :: os_env where
  "friendly_os =
     \<lparr>makedirs_error = no_error, open_read_error = no_error, read_buffer_error = no_error,
      write_fails = never, open_write_error = no_error, read_fails = never,
      same_file = never2, copy_fails = never2\<rparr>"

definition empty_directory :: directory where
  "empty_directory = Map.empty"

text \<open>
  A directory with two entries that pass the filter for \<^verbatim>\<open>a.zip\<close>: a fragment number 001
  holding the byte 1, and a differently named entry with suffix 002 holding the byte 2.
\<close>

definition mixed_names_dir :: directory where
  "mixed_names_dir = [''a.zip.part001'' \<mapsto> File [1], ''a.zip.old.part002'' \<mapsto> File [2]]"

text \<open>
  A directory with the twelve fragments \<^verbatim>\<open>f.part001\<close> to \<^verbatim>\<open>f.part012\<close>, fragment \<open>i\<close> holding
  the byte \<open>i\<close>, and a file that is no fragment; and a listing of it that returns the
  fragments in reverse order.
\<close>

definition twelve_fragments_dir :: directory where
  "twelve_fragments_dir =
     [''notes.txt'' \<mapsto> File [99],
      ''f.part001'' \<mapsto> File [1], ''f.part002'' \<mapsto> File [2], ''f.part003'' \<mapsto> File [3],
      ''f.part004'' \<mapsto> File [4], ''f.part005'' \<mapsto> File [5], ''f.part006'' \<mapsto> File [6],
      ''f.part007'' \<mapsto> File [7], ''f.part008'' \<mapsto> File [8], ''f.part009'' \<mapsto> File [9],
      ''f.part010'' \<mapsto> File [10], ''f.part011'' \<mapsto> File [11], ''f.part012'' \<mapsto> File [12]]"

definition reversed_listing :: "string list" where
  "reversed_listing =
     [''f.part012'', ''f.part011'', ''f.part010'', ''f.part009'', ''f.part008'', ''f.part007'',
      ''notes.txt'',
      ''f.part006'', ''f.part005'', ''f.part004'', ''f.part003'', ''f.part002'', ''f.part001'']"

text \<open>
  A fragments directory left by an earlier run: a file that is no fragment, and a fragment
  number 001 of \<^verbatim>\<open>backup.zip\<close> holding the byte 9. And the same directory after a file
  \<^verbatim>\<open>backup.zip\<close> of five bytes was split into it with fragment size 2: the last fragment
  holds a single byte.
\<close>

definition stale_fragments_dir :: directory where
  "stale_fragments_dir = [''notes.txt'' \<mapsto> File [99], ''backup.zip.part001'' \<mapsto> File [9]]"

definition five_bytes_fragments :: directory where
  "five_bytes_fragments =
     [''notes.txt'' \<mapsto> File [99],
      ''backup.zip.part001'' \<mapsto> File [1, 2], ''backup.zip.part002'' \<mapsto> File [3, 4],
      ''backup.zip.part003'' \<mapsto> File [5]]"

section \<open>Facts about paths\<close>

lemma startswith_prefix: "startswith s p \<longleftrightarrow> prefix p s"
  by (auto simp: startswith_def prefix_def) (metis append_take_drop_id)

lemma endswith_suffix: "endswith s x \<longleftrightarrow> suffix x s"
proof
  assume "endswith s x"
  then have "s = take (length s - length x) s @ x"
    by (metis append_take_drop_id endswith_def)
  then show "suffix x s" by (metis suffixI)
next
  assume "suffix x s"
  then obtain ys where "s = ys @ x" by (auto simp: suffix_def)
  then show "endswith s x" by (simp add: endswith_def)
qed

lemma basename_no_slash: "CHR ''/'' \<notin> set (os_path_basename p)"
  by (auto simp: os_path_basename_def dest: set_takeWhileD)

lemma basename_append_slash:
  assumes "CHR ''/'' \<notin> set b"
  shows "os_path_basename (a @ CHR ''/'' # b) = b"
proof -
  have "takeWhile (\<lambda>c. c \<noteq> CHR ''/'') (rev b @ CHR ''/'' # rev a) = rev b"
    using assms by (subst takeWhile_append2) auto
  then show ?thesis by (simp add: os_path_basename_def)
qed

lemma basename_plain:
  assumes "CHR ''/'' \<notin> set b"
  shows "os_path_basename b = b"
proof -
  have "takeWhile (\<lambda>c. c \<noteq> CHR ''/'') (rev b) = rev b"
    using assms by auto
  then show ?thesis unfolding os_path_basename_def by (simp only: rev_rev_ident)
qed

lemma os_path_join_cases:
  assumes "CHR ''/'' \<notin> set b"
  shows "os_path_join a b = b \<and> a = [] \<or> (\<exists>a'. os_path_join a b = a' @ CHR ''/'' # b)"
proof -
  have nb: "\<not> startswith b ''/''"
    using assms by (cases b) (auto simp: startswith_def)
  show ?thesis
  proof (cases "a = []")
    case True
    then show ?thesis using nb by (simp add: os_path_join_def)
  next
    case False
    show ?thesis
    proof (cases "endswith a ''/''")
      case True
      then obtain a' where "a = a' @ ''/''"
        by (auto simp: endswith_suffix suffix_def)
      then show ?thesis using nb True by (simp add: os_path_join_def)
    next
      case False
      then show ?thesis using nb \<open>a \<noteq> []\<close> by (simp add: os_path_join_def)
    qed
  qed
qed

lemma basename_join:
  assumes "CHR ''/'' \<notin> set b"
  shows "os_path_basename (os_path_join a b) = b"
  using os_path_join_cases [OF assms, of a] assms
  by (auto simp: basename_append_slash basename_plain)


section \<open>Facts about the decimal suffix\<close>

lemma digit_char_zero: "digit_char 0 = CHR ''0''"
  unfolding digit_char_def by code_simp

lemma decimal_digits: "c \<in> set (decimal n) \<Longrightarrow> \<exists>d<10. c = digit_char d"
proof (induction n rule: decimal.induct)
  case (1 n)
  show ?case
  proof (cases "n < 10")
    case True
    with "1.prems" show ?thesis by (auto simp: decimal.simps [of n])
  next
    case False
    with "1.prems" have "c \<in> set (decimal (n div 10)) \<or> c = digit_char (n mod 10)"
      by (auto simp: decimal.simps [of n])
    then show ?thesis
    proof
      assume "c \<in> set (decimal (n div 10))"
      with "1.IH" False show ?thesis by simp
    next
      assume "c = digit_char (n mod 10)"
      then show ?thesis by (intro exI [of _ "n mod 10"]) simp
    qed
  qed
qed

lemma decimal_length_ge: "10 ^ k \<le> n \<Longrightarrow> k < length (decimal n)"
proof (induction k arbitrary: n)
  case 0
  then show ?case by (subst decimal.simps) simp
next
  case (Suc k)
  then have "10 ^ k \<le> n div 10" by simp
  then have "k < length (decimal (n div 10))" by (rule Suc.IH)
  moreover have "\<not> n < 10"
  proof -
    have "(1::nat) \<le> 10 ^ k" by simp
    then have "(10::nat) \<le> 10 ^ Suc k" by simp
    with Suc.prems show ?thesis by linarith
  qed
  ultimately show ?case by (subst decimal.simps) simp
qed

lemma fmt03d_small:
  assumes "n < 1000"
  shows "fmt03d n = [digit_char (n div 100), digit_char (n div 10 mod 10), digit_char (n mod 10)]"
proof -
  consider "n < 10" | "10 \<le> n" "n < 100" | "100 \<le> n"
    by linarith
  then show ?thesis
  proof cases
    case 1
    then show ?thesis
      by (simp add: fmt03d_def decimal.simps [of n] digit_char_zero numeral_2_eq_2)
  next
    case 2
    then have "n div 10 < 10" by simp
    with 2 show ?thesis
      by (simp add: fmt03d_def decimal.simps [of n] decimal.simps [of "n div 10"] digit_char_zero)
  next
    case 3
    then have a: "\<not> n < 10" "\<not> n div 10 < 10" "n div 10 div 10 < 10"
      using assms by simp_all
    have b: "n div 10 div 10 = n div 100" by (simp add: div_mult2_eq [symmetric])
    have c: "decimal (n div 100) = [digit_char (n div 100)]"
      using a b by (simp add: decimal.simps [of "n div 100"])
    show ?thesis
      using a b c
      by (simp add: fmt03d_def decimal.simps [of n] decimal.simps [of "n div 10"])
  qed
qed

lemma fmt03d_large: "1000 \<le> n \<Longrightarrow> fmt03d n = decimal n"
  using decimal_length_ge [of 3 n] by (simp add: fmt03d_def)

lemma digit_char_less: "a < 10 \<Longrightarrow> b < 10 \<Longrightarrow> digit_char a < digit_char b \<longleftrightarrow> a < b"
  by (simp add: digit_char_def less_char_def)

lemma digit_char_eq: "a < 10 \<Longrightarrow> b < 10 \<Longrightarrow> digit_char a = digit_char b \<longleftrightarrow> a = b"
  by (auto simp: digit_char_def dest!: arg_cong [where f = "of_char :: char \<Rightarrow> nat"])

lemma three_digits: "(i::nat) = 100 * (i div 100) + 10 * (i div 10 mod 10) + i mod 10"
proof -
  have "i = 10 * (i div 10) + i mod 10" by simp
  moreover have "i div 10 = 10 * (i div 10 div 10) + i div 10 mod 10" by simp
  moreover have "i div 10 div 10 = i div 100" by (simp add: div_mult2_eq [symmetric])
  ultimately show ?thesis by linarith
qed

lemma three_digits_less:
  assumes "(i::nat) < j"
  shows "i div 100 < j div 100 \<or> i div 100 = j div 100 \<and>
        (i div 10 mod 10 < j div 10 mod 10 \<or> i div 10 mod 10 = j div 10 mod 10 \<and> i mod 10 < j mod 10)"
proof -
  have a: "i mod 10 < 10" "j mod 10 < 10" "i div 10 mod 10 < 10" "j div 10 mod 10 < 10" by simp_all
  show ?thesis using assms three_digits [of i] three_digits [of j] a by linarith
qed

lemma fmt03d_mono:
  assumes "i < j" "j < 1000"
  shows "fmt03d i < fmt03d j"
proof -
  have "i div 100 < j div 100 \<or> i div 100 = j div 100 \<and>
        (i div 10 mod 10 < j div 10 mod 10 \<or> i div 10 mod 10 = j div 10 mod 10 \<and> i mod 10 < j mod 10)"
    using assms(1) by (rule three_digits_less)
  moreover have "i div 100 < 10" "j div 100 < 10" using assms by simp_all
  ultimately show ?thesis
    using assms by (auto simp: fmt03d_small digit_char_less digit_char_eq)
qed


section \<open>Facts about fragment names\<close>

lemma fragment_name_no_slash: "CHR ''/'' \<notin> set (fragment_name (os_path_basename p) k)"
proof -
  have "CHR ''/'' \<notin> set (decimal k)"
  proof
    assume "CHR ''/'' \<in> set (decimal k)"
    then obtain d where "d < 10" "CHR ''/'' = digit_char d"
      using decimal_digits by blast
    then have "of_char (CHR ''/'') = (of_char (char_of (48 + d)) :: nat)"
      by (simp add: digit_char_def)
    with \<open>d < 10\<close> show False by simp
  qed
  then show ?thesis
    by (auto simp: fragment_name_def fmt03d_def basename_no_slash)
qed


section \<open>Facts about blocks\<close>

lemma chunks_Nil: "chunks n [] = []"
  by (simp add: chunks.simps)

lemma chunks_step: "0 < n \<Longrightarrow> xs \<noteq> [] \<Longrightarrow> chunks n xs = take n xs # chunks n (drop n xs)"
  by (subst chunks.simps) simp

lemma concat_chunks: "0 < n \<Longrightarrow> concat (chunks n xs) = xs"
proof (induction n xs rule: chunks.induct)
  case (1 n xs)
  show ?case
  proof (cases "xs = []")
    case True
    then show ?thesis by (simp add: chunks_Nil)
  next
    case False
    note step = chunks_step [OF "1.prems" False]
    have "concat (chunks n (drop n xs)) = drop n xs"
      using "1.IH" "1.prems" False by simp
    then show ?thesis by (simp add: step)
  qed
qed

lemma concat_take_chunks: "0 < n \<Longrightarrow> concat (take m (chunks n xs)) = take (m * n) xs"
proof (induction n xs arbitrary: m rule: chunks.induct)
  case (1 n xs)
  show ?case
  proof (cases "xs = []")
    case True
    then show ?thesis by (simp add: chunks_Nil)
  next
    case False
    show ?thesis
    proof (cases m)
      case 0
      then show ?thesis by simp
    next
      case (Suc m')
      have "concat (take m' (chunks n (drop n xs))) = take (m' * n) (drop n xs)"
        using "1.IH" [of m'] "1.prems" False by simp
      then have "concat (take m (chunks n xs)) = take n xs @ take (m' * n) (drop n xs)"
        using Suc by (simp add: chunks_step [OF "1.prems" False])
      also have "\<dots> = take (n + m' * n) xs"
        by (simp add: take_add)
      finally show ?thesis using Suc by simp
    qed
  qed
qed

lemma chunks_nonempty: "0 < n \<Longrightarrow> c \<in> set (chunks n xs) \<Longrightarrow> c \<noteq> [] \<and> length c \<le> n"
proof (induction n xs rule: chunks.induct)
  case (1 n xs)
  show ?case
  proof (cases "xs = []")
    case True
    with "1.prems" show ?thesis by (simp add: chunks_Nil)
  next
    case False
    with "1.prems" have "c = take n xs \<or> c \<in> set (chunks n (drop n xs))"
      by (simp add: chunks_step [OF "1.prems"(1) False])
    then show ?thesis
    proof
      assume "c = take n xs"
      with False "1.prems" show ?thesis by simp
    next
      assume "c \<in> set (chunks n (drop n xs))"
      with "1.IH" False "1.prems" show ?thesis by simp
    qed
  qed
qed

lemma length_chunks_le: "0 < n \<Longrightarrow> length (chunks n xs) \<le> m \<longleftrightarrow> length xs \<le> m * n"
proof (induction n xs arbitrary: m rule: chunks.induct)
  case (1 n xs)
  show ?case
  proof (cases "xs = []")
    case True
    then show ?thesis by (simp add: chunks_Nil)
  next
    case False
    show ?thesis
    proof (cases m)
      case 0
      with False show ?thesis by (simp add: chunks_step [OF "1.prems" False])
    next
      case (Suc m')
      have "length (chunks n (drop n xs)) \<le> m' \<longleftrightarrow> length (drop n xs) \<le> m' * n"
        using "1.IH" [of m'] "1.prems" False by simp
      moreover have "length (chunks n xs) = Suc (length (chunks n (drop n xs)))"
        by (simp add: chunks_step [OF "1.prems" False])
      moreover have "length xs \<le> Suc m' * n \<longleftrightarrow> length xs - n \<le> m' * n"
        by auto
      ultimately show ?thesis using Suc by simp
    qed
  qed
qed

lemma chunks_nonempty_list: "0 < n \<Longrightarrow> xs \<noteq> [] \<Longrightarrow> chunks n xs \<noteq> []"
  by (subst chunks.simps) simp

text \<open>All blocks but the last are full; the last holds what is left.\<close>

lemma chunks_lengths:
  "0 < n \<Longrightarrow> i < length (chunks n xs) \<Longrightarrow>
   length (chunks n xs ! i) = (if Suc i < length (chunks n xs) then n else length xs - i * n)"
proof (induction n xs arbitrary: i rule: chunks.induct)
  case (1 n xs)
  show ?case
  proof (cases "xs = []")
    case True
    with "1.prems" show ?thesis by (simp add: chunks_Nil)
  next
    case False
    note step = chunks_step [OF "1.prems"(1) False]
    show ?thesis
    proof (cases i)
      case 0
      show ?thesis
      proof (cases "chunks n (drop n xs) = []")
        case True
        then have "length (chunks n (drop n xs)) \<le> 0" by simp
        then have "length (drop n xs) \<le> 0 * n"
          using length_chunks_le [OF "1.prems"(1), of "drop n xs" 0] by simp
        then show ?thesis using 0 step True by simp
      next
        case False
        then have "\<not> length (chunks n (drop n xs)) \<le> 0" by simp
        then have "\<not> length (drop n xs) \<le> 0 * n"
          using length_chunks_le [OF "1.prems"(1), of "drop n xs" 0] by simp
        then show ?thesis using 0 step False by simp
      qed
    next
      case (Suc i')
      then have "i' < length (chunks n (drop n xs))"
        using "1.prems" step by simp
      then have "length (chunks n (drop n xs) ! i') =
          (if Suc i' < length (chunks n (drop n xs)) then n else length (drop n xs) - i' * n)"
        using "1.IH" [of i'] "1.prems" False by simp
      then show ?thesis using Suc step by (simp add: diff_diff_left add.commute)
    qed
  qed
qed


lemma decimal_nonempty: "decimal n \<noteq> []"
  by (subst decimal.simps) simp

lemma decimal_inj: "decimal i = decimal j \<Longrightarrow> i = j"
proof (induction i arbitrary: j rule: decimal.induct)
  case (1 i)
  show ?case
  proof (cases "i < 10")
    case True
    then have di: "decimal i = [digit_char i]" by (simp add: decimal.simps [of i])
    show ?thesis
    proof (cases "j < 10")
      case j: True
      then have "decimal j = [digit_char j]" by (simp add: decimal.simps [of j])
      with di "1.prems" have "digit_char i = digit_char j" by simp
      with True j show ?thesis by (simp add: digit_char_eq)
    next
      case False
      then have "decimal j = decimal (j div 10) @ [digit_char (j mod 10)]"
        by (simp add: decimal.simps [of j])
      with di "1.prems" have "decimal (j div 10) = []" by simp
      with decimal_nonempty show ?thesis by blast
    qed
  next
    case False
    then have di: "decimal i = decimal (i div 10) @ [digit_char (i mod 10)]"
      by (simp add: decimal.simps [of i])
    show ?thesis
    proof (cases "j < 10")
      case True
      then have "decimal j = [digit_char j]" by (simp add: decimal.simps [of j])
      with di "1.prems" have "decimal (i div 10) = []" by simp
      with decimal_nonempty show ?thesis by blast
    next
      case j: False
      then have "decimal j = decimal (j div 10) @ [digit_char (j mod 10)]"
        by (simp add: decimal.simps [of j])
      with di "1.prems" have a: "decimal (i div 10) = decimal (j div 10)"
        and b: "digit_char (i mod 10) = digit_char (j mod 10)" by simp_all
      from a have "i div 10 = j div 10" using "1.IH" False by simp
      moreover from b have "i mod 10 = j mod 10" by (simp add: digit_char_eq)
      ultimately show ?thesis by (metis div_mult_mod_eq)
    qed
  qed
qed

lemma length_fmt03d_small: "n < 1000 \<Longrightarrow> length (fmt03d n) = 3"
  by (simp add: fmt03d_small)

lemma length_fmt03d_large: "1000 \<le> n \<Longrightarrow> 4 \<le> length (fmt03d n)"
  using decimal_length_ge [of 3 n] by (simp add: fmt03d_large)

lemma fmt03d_inj: "fmt03d i = fmt03d j \<Longrightarrow> i = j"
proof (rule ccontr)
  assume eq: "fmt03d i = fmt03d j" and ne: "i \<noteq> j"
  consider "i < 1000" "j < 1000" | "1000 \<le> i" "1000 \<le> j" | "i < 1000" "1000 \<le> j"
    | "1000 \<le> i" "j < 1000"
    by linarith
  then show False
  proof cases
    case 1
    from ne have "i < j \<or> j < i" by linarith
    then have "fmt03d i < fmt03d j \<or> fmt03d j < fmt03d i"
      using 1 fmt03d_mono by blast
    with eq show False by simp
  next
    case 2
    with eq have "decimal i = decimal j" by (simp add: fmt03d_large)
    with ne decimal_inj show False by blast
  next
    case 3
    then show False
      using eq length_fmt03d_small [of i] length_fmt03d_large [of j] by simp
  next
    case 4
    then show False
      using eq length_fmt03d_small [of j] length_fmt03d_large [of i] by simp
  qed
qed

lemma fragment_name_inj: "fragment_name b i = fragment_name b j \<Longrightarrow> i = j"
  by (simp add: fragment_name_def fmt03d_inj)

lemma append_less_iff: "(p :: string) @ x < p @ y \<longleftrightarrow> x < y"
  by (simp add: list_less_def lexord_same_pref_iff)

lemma fragment_name_mono: "i < j \<Longrightarrow> j < 1000 \<Longrightarrow> fragment_name b i < fragment_name b j"
  unfolding fragment_name_def by (simp only: append_less_iff fmt03d_mono)

lemma fmt03d_digits: "c \<in> set (fmt03d n) \<Longrightarrow> \<exists>d<10. c = digit_char d"
proof -
  assume "c \<in> set (fmt03d n)"
  then have "c = CHR ''0'' \<or> c \<in> set (decimal n)"
    by (auto simp: fmt03d_def)
  then show ?thesis
  proof
    assume "c = CHR ''0''"
    then have "c = digit_char 0" by (simp add: digit_char_zero)
    then show ?thesis by (intro exI [of _ 0]) simp
  next
    assume "c \<in> set (decimal n)"
    then show ?thesis by (rule decimal_digits)
  qed
qed

lemma digit_char_not_t: "d < 10 \<Longrightarrow> digit_char d \<noteq> CHR ''t''"
proof
  assume d: "d < 10" and "digit_char d = CHR ''t''"
  then have "(of_char (char_of (48 + d)) :: nat) = of_char (CHR ''t'')"
    by (simp add: digit_char_def)
  with d show False by simp
qed

lemma set_part_suffixes: "set part_suffixes = (\<lambda>i. ''.part'' @ fmt03d i) ` {0..<1000}"
  unfolding part_suffixes_def by (simp only: set_map set_upt)

lemma endswith_any_iff:
  "endswith_any s part_suffixes \<longleftrightarrow> (\<exists>i<1000. endswith s (''.part'' @ fmt03d i))"
  unfolding endswith_any_def list_ex_iff set_part_suffixes by auto

text \<open>A name that ends with four or more digits passes none of the thousand suffixes.\<close>

lemma long_suffix_rejected:
  assumes "4 \<le> length ds" and "\<forall>c\<in>set ds. \<exists>d<10. c = digit_char d"
  shows "\<not> endswith_any (pre @ ds) part_suffixes"
proof
  assume "endswith_any (pre @ ds) part_suffixes"
  then obtain j where j: "j < 1000" and e: "endswith (pre @ ds) (''.part'' @ fmt03d j)"
    unfolding endswith_any_iff by blast
  define s where "s = pre @ ds"
  define x where "x = ''.part'' @ fmt03d j"
  have lx: "length x = 8" using j by (simp add: x_def length_fmt03d_small)
  have ls: "length s = length pre + length ds" by (simp add: s_def)
  from e have len: "8 \<le> length s" and dr: "drop (length s - 8) s = x"
    using lx by (simp_all add: endswith_def s_def x_def)
  have x4: "x ! 4 = CHR ''t''" by (simp add: x_def)
  have idx: "length s - 8 + 4 = length pre + (length ds - 4)"
    using len assms(1) ls by linarith
  have "x ! 4 = drop (length s - 8) s ! 4" by (simp only: dr)
  also have "\<dots> = s ! (length s - 8 + 4)"
    using len by (intro nth_drop) linarith
  also have "\<dots> = s ! (length pre + (length ds - 4))" by (simp only: idx)
  also have "\<dots> = ds ! (length ds - 4)" by (simp only: s_def nth_append_length_plus)
  finally have "ds ! (length ds - 4) = CHR ''t''" using x4 by simp
  moreover have "ds ! (length ds - 4) \<in> set ds"
    using assms(1) by (intro nth_mem) linarith
  ultimately have mem: "CHR ''t'' \<in> set ds" by simp
  have "\<exists>d<10. CHR ''t'' = digit_char d"
    by (rule bspec [OF assms(2) mem])
  then obtain d where "d < 10" and "CHR ''t'' = digit_char d" by (elim exE conjE)
  with digit_char_not_t [of d] show False by simp
qed

lemma is_fragment_fragment_name: "is_fragment b (fragment_name b i) \<longleftrightarrow> i < 1000"
proof
  assume "i < 1000"
  moreover have "endswith (fragment_name b i) (''.part'' @ fmt03d i)"
    by (simp add: endswith_def fragment_name_def)
  ultimately have "endswith_any (fragment_name b i) part_suffixes"
    unfolding endswith_any_iff by blast
  moreover have "startswith (fragment_name b i) b"
    by (simp add: startswith_def fragment_name_def)
  ultimately show "is_fragment b (fragment_name b i)"
    by (simp add: is_fragment_def)
next
  assume a: "is_fragment b (fragment_name b i)"
  show "i < 1000"
  proof (rule ccontr)
    assume "\<not> i < 1000"
    then have "4 \<le> length (fmt03d i)" by (simp add: length_fmt03d_large)
    moreover have "\<forall>c\<in>set (fmt03d i). \<exists>d<10. c = digit_char d"
      using fmt03d_digits by blast
    ultimately have "\<not> endswith_any ((b @ ''.part'') @ fmt03d i) part_suffixes"
      by (rule long_suffix_rejected)
    with a show False by (simp add: is_fragment_def fragment_name_def)
  qed
qed

section \<open>Facts about joined paths\<close>

lemma os_path_join_prefix:
  "\<exists>pre. \<forall>b. CHR ''/'' \<notin> set b \<longrightarrow> os_path_join a b = pre @ b"
proof -
  have nb: "\<not> startswith b ''/''" if "CHR ''/'' \<notin> set b" for b
    using that by (cases b) (auto simp: startswith_def)
  show ?thesis
  proof (cases "a = [] \<or> endswith a ''/''")
    case True
    then have "\<forall>b. CHR ''/'' \<notin> set b \<longrightarrow> os_path_join a b = a @ b"
      using nb by (auto simp: os_path_join_def)
    then show ?thesis by blast
  next
    case False
    then have "\<forall>b. CHR ''/'' \<notin> set b \<longrightarrow> os_path_join a b = (a @ ''/'') @ b"
      using nb by (auto simp: os_path_join_def)
    then show ?thesis by blast
  qed
qed

lemma os_path_join_less:
  assumes "CHR ''/'' \<notin> set x" "CHR ''/'' \<notin> set y"
  shows "os_path_join a x < os_path_join a y \<longleftrightarrow> x < y"
proof -
  obtain pre where "\<forall>b. CHR ''/'' \<notin> set b \<longrightarrow> os_path_join a b = pre @ b"
    using os_path_join_prefix by blast
  with assms show ?thesis by (simp add: append_less_iff)
qed

lemma os_path_join_inj:
  assumes "CHR ''/'' \<notin> set x" "CHR ''/'' \<notin> set y" "os_path_join a x = os_path_join a y"
  shows "x = y"
  using assms basename_join by metis

section \<open>Sorting fragment paths\<close>

lemma fragment_name_slash_free:
  assumes "CHR ''/'' \<notin> set b"
  shows "CHR ''/'' \<notin> set (fragment_name b k)"
proof
  assume "CHR ''/'' \<in> set (fragment_name b k)"
  with assms have mem: "CHR ''/'' \<in> set (fmt03d k)"
    by (auto simp: fragment_name_def)
  have "\<exists>d<10. CHR ''/'' = digit_char d"
    using mem by (rule fmt03d_digits)
  then obtain d where d: "d < 10" and "CHR ''/'' = digit_char d" by (elim exE conjE)
  then have "of_char (CHR ''/'') = (of_char (char_of (48 + d)) :: nat)"
    by (simp add: digit_char_def)
  with d show False by simp
qed

lemma sort_fragment_paths_upto:
  assumes d: "distinct sel"
    and ex: "\<forall>f\<in>set sel. \<exists>i<N. f = fragment_name b i"
    and N: "N \<le> 1000"
    and ns: "CHR ''/'' \<notin> set b"
  shows "sort (map (os_path_join dir) sel) =
         map (\<lambda>i. os_path_join dir (fragment_name b i))
           (filter (\<lambda>i. fragment_name b i \<in> set sel) [0..<N])"
    (is "?l = map ?g ?is")
proof (rule sorted_distinct_set_unique)
  show "sorted ?l" by simp
next
  have sf: "CHR ''/'' \<notin> set f" if "f \<in> set sel" for f
  proof -
    from ex that obtain i where "f = fragment_name b i" by blast
    then show ?thesis using ns by (simp add: fragment_name_slash_free)
  qed
  have "inj_on (os_path_join dir) (set sel)"
  proof (rule inj_onI)
    fix x y
    assume "x \<in> set sel" "y \<in> set sel" "os_path_join dir x = os_path_join dir y"
    then show "x = y" using sf os_path_join_inj by blast
  qed
  with d show "distinct ?l" by (simp add: distinct_map)
next
  have less: "?g i < ?g j" if "i \<in> set ?is" "j \<in> set ?is" "i < j" for i j
  proof -
    from that(2) have "j < N" by simp
    with N have "j < 1000" by linarith
    with that(3) have "fragment_name b i < fragment_name b j" by (rule fragment_name_mono)
    then show ?thesis
      using ns by (simp add: os_path_join_less fragment_name_slash_free)
  qed
  have "sorted_wrt (<) ?is"
    by (rule sorted_wrt_filter) (rule sorted_wrt_upt)
  then have "sorted_wrt (\<lambda>i j. ?g i < ?g j) ?is"
    by (rule sorted_wrt_mono_rel [rotated]) (rule less)
  then have sw: "sorted_wrt (<) (map ?g ?is)"
    by (simp only: sorted_wrt_map)
  then show "sorted (map ?g ?is)" by (simp only: strict_sorted_iff)
  from sw show "distinct (map ?g ?is)" by (simp only: strict_sorted_iff)
next
  have "set sel = fragment_name b ` {i. i < N \<and> fragment_name b i \<in> set sel}"
  proof (rule set_eqI, rule iffI)
    fix f assume f: "f \<in> set sel"
    with ex obtain i where "i < N" "f = fragment_name b i" by blast
    with f show "f \<in> fragment_name b ` {i. i < N \<and> fragment_name b i \<in> set sel}" by blast
  next
    fix f assume "f \<in> fragment_name b ` {i. i < N \<and> fragment_name b i \<in> set sel}"
    then show "f \<in> set sel" by blast
  qed
  then have "os_path_join dir ` set sel =
             (\<lambda>i. os_path_join dir (fragment_name b i)) ` {i. i < N \<and> fragment_name b i \<in> set sel}"
    by (simp only: image_image [symmetric])
  moreover have "set ?is = {i. i < N \<and> fragment_name b i \<in> set sel}" by auto
  ultimately show "set ?l = set (map ?g ?is)" by (simp only: set_sort set_map)
qed


section \<open>Selected names and their order\<close>

lemma map_of_rev_distinct: "distinct (map fst xs) \<Longrightarrow> map_of (rev xs) = map_of xs"
proof (induction xs)
  case Nil
  then show ?case by simp
next
  case (Cons x xs)
  then have ih: "map_of (rev xs) = map_of xs" and nx: "fst x \<notin> fst ` set xs" by simp_all
  from nx have none: "map_of xs (fst x) = None" by (simp add: map_of_eq_None_iff)
  show ?case
  proof (rule ext)
    fix k
    show "map_of (rev (x # xs)) k = map_of (x # xs) k"
      using ih none by (cases x) (auto simp: map_add_def split: option.splits)
  qed
qed


lemma distinct_fragment_names: "distinct (map (\<lambda>i. fragment_name b (Suc i)) [0..<k])"
  by (simp only: distinct_map distinct_upt inj_on_def) (auto dest: fragment_name_inj)


lemma filter_mem_sorted:
  assumes "sorted_wrt (<) (js :: nat list)" and "\<forall>i\<in>set js. i < N"
  shows "filter (\<lambda>i. i \<in> set js) [0..<N] = js"
proof (rule sorted_distinct_set_unique)
  have "sorted_wrt (<) (filter (\<lambda>i. i \<in> set js) [0..<N])"
    by (rule sorted_wrt_filter) (rule sorted_wrt_upt)
  then show "sorted (filter (\<lambda>i. i \<in> set js) [0..<N])"
    and "distinct (filter (\<lambda>i. i \<in> set js) [0..<N])"
    by (simp_all only: strict_sorted_iff)
  from assms(1) show "sorted js" and "distinct js"
    by (simp_all only: strict_sorted_iff)
  show "set (filter (\<lambda>i. i \<in> set js) [0..<N]) = set js"
    using assms(2) by auto
qed

lemma sort_fragment_paths_indices:
  assumes d: "distinct sel"
    and sel: "set sel = fragment_name b ` set js"
    and sorted: "sorted_wrt (<) js"
    and bound: "\<forall>i\<in>set js. i < N"
    and N: "N \<le> 1000"
    and ns: "CHR ''/'' \<notin> set b"
  shows "sort (map (os_path_join dir) sel) = map (\<lambda>i. os_path_join dir (fragment_name b i)) js"
proof -
  have ex: "\<forall>f\<in>set sel. \<exists>i<N. f = fragment_name b i"
    using sel bound by auto
  have "fragment_name b i \<in> set sel \<longleftrightarrow> i \<in> set js" for i
    using sel fragment_name_inj by auto
  then have "filter (\<lambda>i. fragment_name b i \<in> set sel) [0..<N] = filter (\<lambda>i. i \<in> set js) [0..<N]"
    by simp
  also have "\<dots> = js" using sorted bound by (rule filter_mem_sorted)
  finally show ?thesis
    using sort_fragment_paths_upto [OF d ex N ns, of dir] by simp
qed


section \<open>Evaluating the filter on given names\<close>

lemma digit_chars:
  "digit_char 0 = CHR ''0''" "digit_char 1 = CHR ''1''" "digit_char 2 = CHR ''2''"
  "digit_char 3 = CHR ''3''" "digit_char 4 = CHR ''4''" "digit_char 5 = CHR ''5''"
  "digit_char 6 = CHR ''6''" "digit_char 7 = CHR ''7''" "digit_char 8 = CHR ''8''"
  "digit_char 9 = CHR ''9''" "digit_char (Suc 0) = CHR ''1''"
  unfolding digit_char_def by code_simp+

lemma is_fragmentI:
  assumes "i < N" "N \<le> 1000" "startswith f b" "endswith f (''.part'' @ fmt03d i)"
  shows "is_fragment b f"
proof -
  from assms(1,2) have "i < 1000" by linarith
  with assms(4) have "endswith_any f part_suffixes"
    unfolding endswith_any_iff by blast
  with assms(3) show ?thesis by (simp add: is_fragment_def)
qed

lemma is_fragmentD:
  assumes "is_fragment b f"
  shows "8 \<le> length f \<and> take 5 (drop (length f - 8) f) = ''.part''"
proof -
  from assms obtain i where i: "i < 1000" and e: "endswith f (''.part'' @ fmt03d i)"
    unfolding is_fragment_def endswith_any_iff by blast
  from i have "length (fmt03d i) = 3" by (rule length_fmt03d_small)
  with e show ?thesis by (simp add: endswith_def)
qed

lemma is_fragment_between:
  assumes "i < N" "N \<le> 1000"
  shows "is_fragment b (b @ mid @ ''.part'' @ fmt03d i)"
  using assms
proof (rule is_fragmentI)
  show "startswith (b @ mid @ ''.part'' @ fmt03d i) b" by (simp add: startswith_def)
  show "endswith (b @ mid @ ''.part'' @ fmt03d i) (''.part'' @ fmt03d i)"
    by (simp add: endswith_def)
qed


section \<open>Opening and reading\<close>

lemma open_rb_Inr:
  assumes "open_rb env p n = Inr c"
  shows "n = Some (File c)" and "path_error p = None" and "\<not> names_directory p"
    and "os_path_exists p n"
  using assms
  by (auto simp: open_rb_def os_path_exists_def split: option.splits node.splits if_splits)

lemma os_makedirs_None: "os_makedirs env p = None \<Longrightarrow> path_error p = None"
  by (simp add: os_makedirs_def split: option.splits)

lemma file_read_positive:
  "0 < n \<Longrightarrow> n < 2 ^ 63 \<Longrightarrow> read_buffer_error env n = None \<Longrightarrow>
   file_read env n rest = Inr (take (nat n) rest, drop (nat n) rest)"
  by (simp add: file_read_def)

section \<open>The reading loop\<close>

lemma split_loop_overflow:
  "n < - (2 ^ 63) \<or> 2 ^ 63 \<le> n \<Longrightarrow> split_loop env n d b rest k ts = Inl OverflowError"
  by (subst split_loop.simps) (simp add: file_read_def)

lemma split_loop_below_minus_one:
  "- (2 ^ 63) \<le> n \<Longrightarrow> n < - 1 \<Longrightarrow> split_loop env n d b rest k ts = Inl ReadLengthValueError"
  by (subst split_loop.simps) (simp add: file_read_def)

lemma split_loop_zero: "split_loop env 0 d b rest k ts = Inr ts"
  by (subst split_loop.simps) (simp add: file_read_def)

lemma split_loop_empty:
  "0 < n \<Longrightarrow> n < 2 ^ 63 \<Longrightarrow> read_buffer_error env n = None \<Longrightarrow>
   split_loop env n d b [] k ts = Inr ts"
  by (subst split_loop.simps) (simp add: file_read_def)

lemma split_loop_minus_one_empty:
  "read_buffer_error env (- 1) = None \<Longrightarrow> split_loop env (- 1) d b [] k ts = Inr ts"
  by (subst split_loop.simps) (simp add: file_read_def)

lemma split_loop_minus_one:
  "read_buffer_error env (- 1) = None \<Longrightarrow> c \<noteq> [] \<Longrightarrow>
   split_loop env (- 1) d b c k ts = Inr (ts @ [(c, os_path_join d (fragment_name b (k + 1)))])"
  by (subst split_loop.simps) (simp add: file_read_def split_loop_minus_one_empty)

lemma split_loop_chunks:
  "0 < n \<Longrightarrow> n < 2 ^ 63 \<Longrightarrow> read_buffer_error env n = None \<Longrightarrow>
   split_loop env n d b rest k ts =
     Inr (ts @ map (\<lambda>(i, c). (c, os_path_join d (fragment_name b i)))
                (enumerate (Suc k) (chunks (nat n) rest)))"
proof (induction "nat n" rest arbitrary: k ts rule: chunks.induct)
  case (1 rest)
  show ?case
  proof (cases "rest = []")
    case True
    then show ?thesis using "1.prems" by (simp add: split_loop_empty chunks_Nil)
  next
    case False
    have pos: "0 < nat n" using "1.prems" by simp
    have rd: "file_read env n rest = Inr (take (nat n) rest, drop (nat n) rest)"
      using "1.prems" by (rule file_read_positive)
    have ne: "take (nat n) rest \<noteq> []" using False pos by simp
    have "split_loop env n d b rest k ts =
          split_loop env n d b (drop (nat n) rest) (k + 1)
            (ts @ [(take (nat n) rest, os_path_join d (fragment_name b (k + 1)))])"
      using rd ne by (subst split_loop.simps) simp
    also have "\<dots> = Inr ((ts @ [(take (nat n) rest, os_path_join d (fragment_name b (k + 1)))])
         @ map (\<lambda>(i, c). (c, os_path_join d (fragment_name b i)))
                (enumerate (Suc (k + 1)) (chunks (nat n) (drop (nat n) rest))))"
      using "1.hyps" [of "k + 1"] False pos "1.prems" by simp
    finally show ?thesis
      by (simp add: chunks_step [OF pos False])
  qed
qed

section \<open>The directory after the writes\<close>

lemma foldl_store_fragment:
  "foldl store_fragment d ts =
   d ++ map_of (rev (map (\<lambda>t. (os_path_basename (snd t), File (fst t))) ts))"
proof (induction ts arbitrary: d)
  case Nil
  then show ?case by simp
next
  case (Cons t ts)
  show ?case
    unfolding foldl_Cons Cons.IH by (simp add: store_fragment_def)
qed

lemma store_fragments_expected:
  assumes "CHR ''/'' \<notin> set b"
  shows "store_fragments
           (map (\<lambda>(i, c). (c, os_path_join dir (fragment_name b i))) (enumerate (Suc 0) cs)) frags
         = frags ++ map_of (zip (map (\<lambda>i. fragment_name b (Suc i)) [0..<length cs])
                              (map File cs))"
proof -
  let ?ts = "map (\<lambda>(i, c). (c, os_path_join dir (fragment_name b i))) (enumerate (Suc 0) cs)"
  let ?ns = "map (\<lambda>i. fragment_name b (Suc i)) [0..<length cs]"
  have bn: "os_path_basename (os_path_join dir (fragment_name b i)) = fragment_name b i" for i
    by (rule basename_join) (rule fragment_name_slash_free [OF assms])
  have "map (\<lambda>t. (os_path_basename (snd t), File (fst t))) ?ts
        = map (\<lambda>(i, c). (fragment_name b i, c)) (enumerate (Suc 0) (map File cs))"
    by (simp add: bn case_prod_unfold enumerate_eq_zip zip_map2)
  also have "\<dots> = zip (map (fragment_name b) [Suc 0..<Suc 0 + length (map File cs)]) (map File cs)"
    by (simp only: enumerate_eq_zip zip_map1)
  also have "[Suc 0..<Suc 0 + length (map File cs)] = map Suc [0..<length cs]"
    by (simp only: map_Suc_upt plus_1_eq_Suc add_Suc add_0 length_map)
  also have "map (fragment_name b) (map Suc [0..<length cs]) = ?ns"
    by (simp only: map_map o_def)
  finally have kv: "map (\<lambda>t. (os_path_basename (snd t), File (fst t))) ?ts = zip ?ns (map File cs)" .
  have "distinct (map fst (zip ?ns (map File cs)))"
    using distinct_fragment_names [of b "length cs"] by simp
  then have "map_of (rev (zip ?ns (map File cs))) = map_of (zip ?ns (map File cs))"
    by (rule map_of_rev_distinct)
  then show ?thesis
    unfolding store_fragments_def foldl_store_fragment kv by simp
qed

lemma expected_fragments_lookup:
  assumes "i < length (chunks n content)"
  shows "expected_fragments frags b n content (fragment_name b (Suc i))
         = Some (File (chunks n content ! i))"
proof -
  let ?cs = "map File (chunks n content)"
  let ?ns = "map (\<lambda>i. fragment_name b (Suc i)) [0..<length (chunks n content)]"
  have "distinct ?ns" by (rule distinct_fragment_names)
  moreover have "length ?ns = length ?cs" by simp
  ultimately have "map_of (zip ?ns ?cs) (?ns ! i) = Some (?cs ! i)"
    using assms by (intro map_of_zip_nth) simp_all
  moreover have "?ns ! i = fragment_name b (Suc i)"
    using assms by simp
  moreover have "?cs ! i = File (chunks n content ! i)"
    using assms by simp
  ultimately show ?thesis by (simp add: expected_fragments_def)
qed

lemma expected_fragments_dom:
  "dom (expected_fragments frags b n content)
   = dom frags \<union> (\<lambda>i. fragment_name b (Suc i)) ` {0..<length (chunks n content)}"
  by (simp add: expected_fragments_def Un_commute)

lemma expected_fragments_other:
  assumes "\<forall>i<length (chunks n content). f \<noteq> fragment_name b (Suc i)"
  shows "expected_fragments frags b n content f = frags f"
proof -
  have "f \<notin> set (map (\<lambda>i. fragment_name b (Suc i)) [0..<length (chunks n content)])"
    using assms by auto
  then have "map_of (zip (map (\<lambda>i. fragment_name b (Suc i)) [0..<length (chunks n content)])
                 (map File (chunks n content))) f = None"
    by simp
  then show ?thesis
    unfolding expected_fragments_def by (simp only: map_add_def option.case)
qed

section \<open>The copy loop\<close>

lemma copy_fragments_all:
  assumes "\<forall>p\<in>set ps. read_fragment env d p = Some (g p)"
  shows "copy_fragments env d ps out = Inr (out @ concat (map g ps))"
  using assms by (induction ps arbitrary: out) simp_all

lemma fragment_name_not_directory:
  "fragment_name b i \<noteq> [] \<and> fragment_name b i \<noteq> ''.'' \<and> fragment_name b i \<noteq> ''..''"
proof -
  have "5 \<le> length (fragment_name b i)" by (simp add: fragment_name_def)
  then show ?thesis by auto
qed

lemma fragment_path_not_directory:
  assumes "CHR ''/'' \<notin> set b"
  shows "\<not> names_directory (os_path_join dir (fragment_name b i))"
proof -
  have "os_path_basename (os_path_join dir (fragment_name b i)) = fragment_name b i"
    by (rule basename_join) (rule fragment_name_slash_free [OF assms])
  then show ?thesis
    using fragment_name_not_directory [of b i] by (simp add: names_directory_def)
qed

section \<open>Merging fragments with exact names\<close>

lemma merge_files_indices:
  assumes dl: "distinct listing"
    and sel: "set (filter (is_fragment b) listing) = fragment_name b ` set js"
    and sorted: "sorted_wrt (<) js"
    and bound: "\<forall>i\<in>set js. i < N"
    and N: "N \<le> 1000"
    and ne: "js \<noteq> []"
    and ns: "CHR ''/'' \<notin> set b"
    and pe: "path_error dir = None"
    and mk: "os_makedirs env (os_path_dirname output_file_path) = None"
    and ow: "open_wb env output_file_path = None"
    and al: "\<forall>i\<in>set js. \<not> aliases env output_file_path (os_path_join dir (fragment_name b i))"
    and rd: "\<forall>i\<in>set js. read_fragment env d (os_path_join dir (fragment_name b i)) = Some (c i)"
  shows "merge_files env (Some d) (Inr listing) dir b output_file_path
         = Some (Inr (concat (map c js)))"
proof -
  let ?sel = "filter (is_fragment b) listing"
  let ?paths = "map (\<lambda>i. os_path_join dir (fragment_name b i)) js"
  have ds: "distinct ?sel" using dl by simp
  have paths: "select_fragment_paths dir b listing = ?paths"
    unfolding select_fragment_paths_def
    using ds sel sorted bound N ns by (rule sort_fragment_paths_indices)
  have pne: "?paths \<noteq> []" using ne by simp
  have inj: "inj_on (\<lambda>i. os_path_join dir (fragment_name b i)) (set js)"
  proof (rule inj_onI)
    fix x y
    assume "os_path_join dir (fragment_name b x) = os_path_join dir (fragment_name b y)"
    then have "os_path_basename (os_path_join dir (fragment_name b x))
               = os_path_basename (os_path_join dir (fragment_name b y))" by simp
    then have "fragment_name b x = fragment_name b y"
      by (simp add: basename_join fragment_name_slash_free [OF ns])
    then show "x = y" by (rule fragment_name_inj)
  qed
  define g where "g p = c (the_inv_into (set js) (\<lambda>i. os_path_join dir (fragment_name b i)) p)"
    for p
  have g: "g (os_path_join dir (fragment_name b i)) = c i" if "i \<in> set js" for i
    unfolding g_def using the_inv_into_f_f [OF inj that] by simp
  have "\<forall>p\<in>set ?paths. read_fragment env d p = Some (g p)"
    using rd g by auto
  then have "copy_fragments env d ?paths [] = Inr ([] @ concat (map g ?paths))"
    by (rule copy_fragments_all)
  moreover have "map g ?paths = map c js"
    unfolding map_map o_def by (rule map_cong [OF refl]) (rule g)
  ultimately have copy: "copy_fragments env d ?paths [] = Inr (concat (map c js))"
    by (simp only: append_Nil)
  have noal: "\<not> list_ex (aliases env output_file_path) ?paths"
    using al by (auto simp: list_ex_iff)
  show ?thesis
    unfolding merge_files_def
    by (simp only: option.case pe sum.case paths Let_def pne mk ow noal copy if_False
        not_None_eq simp_thms)
qed

section \<open>Paths the system accepts\<close>

lemma utf8_length_append: "utf8_length (a @ b) = utf8_length a + utf8_length b"
  by (simp add: utf8_length_def)

lemma utf8_length_Cons: "utf8_length (x # xs) = utf8_length [x] + utf8_length xs"
  by (simp add: utf8_length_def)

lemma str_split_utf8: "c \<in> set (str_split sep p) \<Longrightarrow> utf8_length c \<le> utf8_length p"
proof (induction p arbitrary: c)
  case Nil
  then show ?case by simp
next
  case (Cons a p)
  show ?case
  proof (cases "a = sep")
    case True
    with Cons.prems have "c = [] \<or> c \<in> set (str_split sep p)" by simp
    then show ?thesis
    proof
      assume "c = []"
      then show ?thesis by (simp add: utf8_length_def)
    next
      assume "c \<in> set (str_split sep p)"
      then have "utf8_length c \<le> utf8_length p" by (rule Cons.IH)
      then show ?thesis using utf8_length_Cons [of a p] by linarith
    qed
  next
    case False
    show ?thesis
    proof (cases "str_split sep p")
      case Nil
      with False Cons.prems have "c = [a]" by simp
      then show ?thesis using utf8_length_Cons [of a p] by simp
    next
      case (Cons w ws)
      with False Cons.prems have "c = a # w \<or> c \<in> set ws" by simp
      then show ?thesis
      proof
        assume c: "c = a # w"
        have "w \<in> set (str_split sep p)" using Cons by simp
        then have "utf8_length w \<le> utf8_length p" by (rule Cons.IH)
        then show ?thesis
          using utf8_length_Cons [of a p] utf8_length_Cons [of a w] c by simp
      next
        assume "c \<in> set ws"
        then have "c \<in> set (str_split sep p)" using Cons by simp
        then have "utf8_length c \<le> utf8_length p" by (rule Cons.IH)
        then show ?thesis using utf8_length_Cons [of a p] by linarith
      qed
    qed
  qed
qed

lemma path_error_NoneI:
  assumes "CHR 0x00 \<notin> set p" and "p \<noteq> []" and "utf8_length p \<le> 255"
  shows "path_error p = None"
proof -
  have "\<not> list_ex (\<lambda>c. 255 < utf8_length c) (str_split (CHR ''/'') p)"
  proof
    assume "list_ex (\<lambda>c. 255 < utf8_length c) (str_split (CHR ''/'') p)"
    then obtain c where "c \<in> set (str_split (CHR ''/'') p)" and "255 < utf8_length c"
      by (auto simp: list_ex_iff)
    then show False using str_split_utf8 [of c "CHR ''/''" p] assms(3) by linarith
  qed
  then show ?thesis using assms by (simp add: path_error_def)
qed

lemma digit_char_code: "d < 10 \<Longrightarrow> (of_char (digit_char d) :: nat) = 48 + d"
  by (simp add: digit_char_def)

lemma fmt03d_char_code:
  assumes "c \<in> set (fmt03d i)"
  shows "(of_char c :: nat) < 128 \<and> c \<noteq> CHR 0x00"
proof -
  from assms obtain d where d: "d < 10" and c: "c = digit_char d"
    using fmt03d_digits by blast
  have "(of_char c :: nat) = 48 + d" unfolding c using d by (rule digit_char_code)
  with d show ?thesis by auto
qed

lemma fmt03d_no_null: "CHR 0x00 \<notin> set (fmt03d i)"
  using fmt03d_char_code by blast

lemma utf8_length_fmt03d: "utf8_length (fmt03d i) = length (fmt03d i)"
proof -
  have "\<forall>c\<in>set (fmt03d i). \<not> 128 \<le> (of_char c :: nat)"
  proof
    fix c
    assume "c \<in> set (fmt03d i)"
    then have "(of_char c :: nat) < 128" using fmt03d_char_code by blast
    then show "\<not> 128 \<le> (of_char c :: nat)" by linarith
  qed
  then have "filter (\<lambda>c. 128 \<le> (of_char c :: nat)) (fmt03d i) = []"
    by (simp add: filter_empty_conv)
  then show ?thesis by (simp add: utf8_length_def)
qed

lemma decimal_length_le: "n < 10 ^ Suc k \<Longrightarrow> length (decimal n) \<le> Suc k"
proof (induction k arbitrary: n)
  case 0
  then show ?case by (subst decimal.simps) simp
next
  case (Suc k)
  show ?case
  proof (cases "n < 10")
    case True
    then show ?thesis by (subst decimal.simps) simp
  next
    case False
    from Suc.prems have "n div 10 < 10 ^ Suc k"
      by (simp add: less_mult_imp_div_less mult.commute)
    then have "length (decimal (n div 10)) \<le> Suc k" by (rule Suc.IH)
    with False show ?thesis by (subst decimal.simps) simp
  qed
qed

lemma length_fmt03d_le: "i < 100000 \<Longrightarrow> length (fmt03d i) \<le> 5"
proof (cases "i < 1000")
  case True
  then show ?thesis by (simp add: length_fmt03d_small)
next
  case False
  assume "i < 100000"
  then have "i < 10 ^ Suc 4" by simp
  then have "length (decimal i) \<le> Suc 4" by (rule decimal_length_le)
  with False show ?thesis by (simp add: fmt03d_large)
qed

lemma numbered_path_ok:
  assumes "CHR 0x00 \<notin> set p" and "p \<noteq> []" and "utf8_length p \<le> 250" and "i < 100000"
  shows "path_error (p @ fmt03d i) = None"
proof (rule path_error_NoneI)
  show "CHR 0x00 \<notin> set (p @ fmt03d i)" using assms(1) fmt03d_no_null by simp
  show "p @ fmt03d i \<noteq> []" using assms(2) by simp
  show "utf8_length (p @ fmt03d i) \<le> 255"
    using assms(3) length_fmt03d_le [OF assms(4)]
    by (simp add: utf8_length_append utf8_length_fmt03d)
qed

section \<open>The result of splitting\<close>

lemma split_file_expected:
  assumes op: "open_rb env path source = Inr content"
    and mk: "os_makedirs env dir = None"
    and n: "0 < n" and n63: "n < 2 ^ 63"
    and buf: "read_buffer_error env n = None"
    and ne: "content \<noteq> []"
    and wf: "\<forall>i<length (chunks (nat n) content).
               \<not> write_unit_fails env frags
                   (os_path_join dir (fragment_name (os_path_basename path) (Suc i)))"
  shows "split_file env source frags path dir n
         = Inr (dir, expected_fragments frags (os_path_basename path) (nat n) content)"
proof -
  let ?b = "os_path_basename path"
  let ?cs = "chunks (nat n) content"
  let ?ts = "map (\<lambda>(i, c). (c, os_path_join dir (fragment_name ?b i))) (enumerate (Suc 0) ?cs)"
  have ex: "os_path_exists path source" using op by (rule open_rb_Inr)
  have loop: "split_loop env n dir ?b content 0 [] = Inr ?ts"
    using split_loop_chunks [OF n n63 buf, of dir ?b content 0 "[]"] by simp
  have "?cs \<noteq> []" using n ne by (intro chunks_nonempty_list) simp_all
  then have tne: "?ts \<noteq> []" by (cases ?cs) simp_all
  have ok: "snd (write_fragment env frags t)" if "t \<in> set ?ts" for t
  proof -
    from that obtain j c where jc: "(j, c) \<in> set (enumerate (Suc 0) ?cs)"
      and t: "t = (c, os_path_join dir (fragment_name ?b j))"
      by auto
    from jc have j: "Suc 0 \<le> j" "j < Suc 0 + length ?cs"
      by (simp_all add: in_set_enumerate_eq)
    then obtain i where i: "j = Suc i" "i < length ?cs"
      by (cases j) simp_all
    with wf have "\<not> write_unit_fails env frags (os_path_join dir (fragment_name ?b j))"
      by simp
    then show ?thesis by (simp add: t write_fragment_def)
  qed
  have nofail: "filter (\<lambda>r. \<not> snd r) (map (write_fragment env frags) ?ts) = []"
    using ok by (simp add: filter_empty_conv)
  have store: "store_fragments ?ts frags = expected_fragments frags ?b (nat n) content"
    unfolding expected_fragments_def
    by (rule store_fragments_expected) (rule basename_no_slash)
  show ?thesis
    unfolding split_file_def
    by (simp only: ex mk op option.case loop sum.case tne nofail store Let_def
        list.size if_True if_False not_False_eq_True not_True_eq_False less_irrefl simp_thms)
qed

lemma friendly_os_simps:
  "makedirs_error friendly_os p = None" "open_read_error friendly_os p = None"
  "read_buffer_error friendly_os n = None" "\<not> write_fails friendly_os p"
  "open_write_error friendly_os p = None" "\<not> read_fails friendly_os p"
  "\<not> same_file friendly_os p q" "\<not> copy_fails friendly_os p q"
  by (simp_all add: friendly_os_def no_error_def never_def never2_def)

lemma example_paths:
  "path_error ''/tmp/backup.zip'' = None"
  "path_error ''/tmp/backup_fragments'' = None"
  "path_error ''/tmp/restore'' = None"
  "path_error ''/tmp/restore/backup.zip'' = None"
  "path_error ''/mnt/usb/frags'' = None"
  "path_error ''/tmp/restore/a.zip'' = None"
  "path_error ''/tmp/restore/f'' = None"
  by (rule path_error_NoneI; simp add: utf8_length_def)+

lemma example_basenames:
  "os_path_basename ''/tmp/backup.zip'' = ''backup.zip''"
  "os_path_basename ''/tmp/restore/backup.zip'' = ''backup.zip''"
  "os_path_basename ''/tmp/restore/a.zip'' = ''a.zip''"
  "os_path_basename ''/tmp/restore/f'' = ''f''"
  by (simp_all add: os_path_basename_def)

lemma example_dirnames:
  "os_path_dirname ''/tmp/restore/backup.zip'' = ''/tmp/restore''"
  "os_path_dirname ''/tmp/restore/a.zip'' = ''/tmp/restore''"
  "os_path_dirname ''/tmp/restore/f'' = ''/tmp/restore''"
  by (simp_all add: os_path_dirname_def os_path_basename_def Let_def)

lemma open_backup_zip:
  "open_rb friendly_os ''/tmp/backup.zip'' (Some (File c)) = Inr c"
  by (simp add: open_rb_def example_paths names_directory_def example_basenames
      friendly_os_simps)

lemma makedirs_examples:
  "os_makedirs friendly_os ''/tmp/backup_fragments'' = None"
  "os_makedirs friendly_os ''/tmp/restore'' = None"
  by (simp_all add: os_makedirs_def example_paths friendly_os_simps)

lemma open_wb_examples:
  "open_wb friendly_os ''/tmp/restore/backup.zip'' = None"
  "open_wb friendly_os ''/tmp/restore/a.zip'' = None"
  "open_wb friendly_os ''/tmp/restore/f'' = None"
  by (simp_all add: open_wb_def example_paths names_directory_def example_basenames
      friendly_os_simps)

section \<open>Claims about \<^verbatim>\<open>split_file\<close> alone\<close>

text \<open>
  C8, as the claim states it, fails for a fragment size that does not fit the C type
  \<^verbatim>\<open>ssize_t\<close>: \<^verbatim>\<open>split_file\<close> has no check of the size, and on an existing empty file the
  first \<^verbatim>\<open>f_in.read(2 ** 63)\<close> raises \<^verbatim>\<open>OverflowError\<close>, also when the operating system
  refuses nothing.
\<close>

theorem split_file_empty_input_overflow_counterexample:
  "split_file friendly_os (Some (File [])) empty_directory ''/tmp/backup.zip''
     ''/tmp/backup_fragments'' (2 ^ 63)
   = Inl OverflowError"
proof -
  have "os_path_exists ''/tmp/backup.zip'' (Some (File []))"
    using open_backup_zip [of "[]"] by (rule open_rb_Inr)
  then show ?thesis
    by (simp add: split_file_def makedirs_examples open_backup_zip split_loop_overflow)
qed

text \<open>
  C8, amended. For an existing zero-length input file that can be opened, a fragments
  directory that \<^verbatim>\<open>os.makedirs\<close> can make, and a positive fragment size below \<open>2 ^ 63\<close> for
  which the read buffer can be allocated, \<^verbatim>\<open>split_file\<close> raises no error, returns the path
  of the fragments directory and writes no fragment: the directory is left as it was.
\<close>

theorem split_file_empty_input:
  assumes "open_rb env large_file_path source = Inr []"
    and "os_makedirs env fragments_dir_local = None"
    and "0 < fragment_size_bytes"
    and "fragment_size_bytes < 2 ^ 63"
    and "read_buffer_error env fragment_size_bytes = None"
  shows "split_file env source frags large_file_path fragments_dir_local fragment_size_bytes
         = Inr (fragments_dir_local, frags)"
proof -
  have ex: "os_path_exists large_file_path source" using assms(1) by (rule open_rb_Inr)
  have loop: "split_loop env fragment_size_bytes fragments_dir_local
                (os_path_basename large_file_path) [] 0 [] = Inr []"
    using assms(3-5) by (rule split_loop_empty)
  show ?thesis
    unfolding split_file_def using ex assms(1,2) loop by simp
qed

theorem split_file_empty_input_witness:
  "open_rb friendly_os ''/tmp/backup.zip'' (Some (File [])) = Inr []
   \<and> os_makedirs friendly_os ''/tmp/backup_fragments'' = None
   \<and> (0::int) < 1048576 \<and> (1048576::int) < 2 ^ 63
   \<and> read_buffer_error friendly_os 1048576 = None
   \<and> split_file friendly_os (Some (File [])) empty_directory ''/tmp/backup.zip''
        ''/tmp/backup_fragments'' 1048576
      = Inr (''/tmp/backup_fragments'', empty_directory)"
  using split_file_empty_input [of friendly_os "''/tmp/backup.zip''" "Some (File [])"
      "''/tmp/backup_fragments''" 1048576 empty_directory]
  by (simp add: open_backup_zip makedirs_examples friendly_os_simps)

text \<open>
  C6, as the claim states it, fails: \<^verbatim>\<open>split_file\<close> has no check of the fragment size.
  Called on an existing file of three bytes with size 0 it returns the fragments directory
  and raises nothing.
\<close>

theorem split_file_size_zero_counterexample:
  "split_file friendly_os (Some (File [1, 2, 3])) empty_directory ''/tmp/backup.zip''
     ''/tmp/backup_fragments'' 0
   = Inr (''/tmp/backup_fragments'', empty_directory)"
proof -
  have "os_path_exists ''/tmp/backup.zip'' (Some (File [1, 2, 3]))"
    using open_backup_zip [of "[1, 2, 3]"] by (rule open_rb_Inr)
  then show ?thesis
    by (simp add: split_file_def makedirs_examples open_backup_zip split_loop_zero)
qed

text \<open>
  C6, amended. For an existing input file that can be opened and a fragments directory
  that \<^verbatim>\<open>os.makedirs\<close> can make, \<^verbatim>\<open>split_file\<close> does not check the fragment size itself; what
  happens is decided by the first \<^verbatim>\<open>f_in.read(size)\<close>. A size below \<open>- 2 ^ 63\<close> fails with
  \<^verbatim>\<open>OverflowError\<close>. A size from \<open>- 2 ^ 63\<close> to \<open>-2\<close> fails with the \<^verbatim>\<open>ValueError\<close> of the read.
  Size 0 returns the fragments directory without error and without writing a fragment.
  With size \<open>-1\<close>, when the read buffer can be allocated, the call returns the fragments
  directory without error: an empty file gives no fragment, and a non-empty file is written
  whole as the single fragment number 001, provided that write unit does not fail.
\<close>

theorem split_file_nonpositive_size:
  assumes "open_rb env large_file_path source = Inr content"
    and "os_makedirs env fragments_dir_local = None"
  shows
    "(n1 < - (2 ^ 63) \<longrightarrow>
        split_file env source frags large_file_path fragments_dir_local n1 = Inl OverflowError)
     \<and> (- (2 ^ 63) \<le> n2 \<and> n2 < - 1 \<longrightarrow>
        split_file env source frags large_file_path fragments_dir_local n2
          = Inl ReadLengthValueError)
     \<and> split_file env source frags large_file_path fragments_dir_local 0
          = Inr (fragments_dir_local, frags)
     \<and> (read_buffer_error env (- 1) = None \<and>
         (content \<noteq> [] \<longrightarrow>
            \<not> write_unit_fails env frags
                (os_path_join fragments_dir_local
                   (fragment_name (os_path_basename large_file_path) 1))) \<longrightarrow>
        split_file env source frags large_file_path fragments_dir_local (- 1)
          = Inr (fragments_dir_local,
                 if content = [] then frags
                 else frags(fragment_name (os_path_basename large_file_path) 1
                              \<mapsto> File content)))"
proof -
  have ex: "os_path_exists large_file_path source" using assms(1) by (rule open_rb_Inr)
  note pre = ex assms
  have b: "os_path_basename (os_path_join fragments_dir_local
                        (fragment_name (os_path_basename large_file_path) 1))
           = fragment_name (os_path_basename large_file_path) 1"
    by (rule basename_join) (rule fragment_name_no_slash)
  show ?thesis
  proof (intro conjI impI)
    assume "n1 < - (2 ^ 63)"
    then show "split_file env source frags large_file_path fragments_dir_local n1
               = Inl OverflowError"
      using pre by (simp add: split_file_def split_loop_overflow)
  next
    assume "- (2 ^ 63) \<le> n2 \<and> n2 < - 1"
    then show "split_file env source frags large_file_path fragments_dir_local n2
               = Inl ReadLengthValueError"
      using pre by (simp add: split_file_def split_loop_below_minus_one)
  next
    show "split_file env source frags large_file_path fragments_dir_local 0
          = Inr (fragments_dir_local, frags)"
      using pre by (simp add: split_file_def split_loop_zero)
  next
    assume a: "read_buffer_error env (- 1) = None \<and>
         (content \<noteq> [] \<longrightarrow>
            \<not> write_unit_fails env frags
                (os_path_join fragments_dir_local
                   (fragment_name (os_path_basename large_file_path) 1)))"
    show "split_file env source frags large_file_path fragments_dir_local (- 1)
          = Inr (fragments_dir_local,
                 if content = [] then frags
                 else frags(fragment_name (os_path_basename large_file_path) 1
                              \<mapsto> File content))"
    proof (cases "content = []")
      case True
      then show ?thesis
        using pre a by (simp add: split_file_def split_loop_minus_one_empty)
    next
      case False
      then show ?thesis
        using pre a b
        by (simp add: split_file_def split_loop_minus_one write_fragment_def
            store_fragments_def store_fragment_def)
    qed
  qed
qed

lemma join_example_dirs:
  "c \<noteq> CHR ''/'' \<Longrightarrow>
   os_path_join ''/tmp/backup_fragments'' (c # cs) = ''/tmp/backup_fragments/'' @ c # cs"
  "c \<noteq> CHR ''/'' \<Longrightarrow> os_path_join ''/mnt/usb/frags'' (c # cs) = ''/mnt/usb/frags/'' @ c # cs"
  by (simp_all add: os_path_join_def startswith_def endswith_def)

lemma backup_zip_part001:
  "os_path_join ''/tmp/backup_fragments'' (fragment_name ''backup.zip'' 1)
   = ''/tmp/backup_fragments/backup.zip.part001''"
  "fragment_name ''backup.zip'' 1 = ''backup.zip.part001''"
  "os_path_join ''/tmp/backup_fragments'' (fragment_name ''backup.zip'' (Suc 0))
   = ''/tmp/backup_fragments/backup.zip.part001''"
  "fragment_name ''backup.zip'' (Suc 0) = ''backup.zip.part001''"
  by (simp_all add: os_path_join_def startswith_def endswith_def fragment_name_def
      fmt03d_small digit_chars)

lemma write_backup_zip_part001:
  "\<not> write_unit_fails friendly_os empty_directory ''/tmp/backup_fragments/backup.zip.part001''"
proof -
  have "path_error ''/tmp/backup_fragments/backup.zip.part001'' = None"
    by (rule path_error_NoneI) (simp_all add: utf8_length_def)
  then show ?thesis
    by (simp add: write_unit_fails_def names_directory_def os_path_basename_def
        empty_directory_def friendly_os_simps)
qed

theorem split_file_nonpositive_size_witness:
  "open_rb friendly_os ''/tmp/backup.zip'' (Some (File [1, 2, 3])) = Inr [1, 2, 3]
   \<and> os_makedirs friendly_os ''/tmp/backup_fragments'' = None
   \<and> (- (2 ^ 63) - 1 :: int) < - (2 ^ 63)
   \<and> split_file friendly_os (Some (File [1, 2, 3])) empty_directory ''/tmp/backup.zip''
        ''/tmp/backup_fragments'' (- (2 ^ 63) - 1) = Inl OverflowError
   \<and> - (2 ^ 63) \<le> (- 5 :: int) \<and> (- 5 :: int) < - 1
   \<and> split_file friendly_os (Some (File [1, 2, 3])) empty_directory ''/tmp/backup.zip''
        ''/tmp/backup_fragments'' (- 5) = Inl ReadLengthValueError
   \<and> split_file friendly_os (Some (File [1, 2, 3])) empty_directory ''/tmp/backup.zip''
        ''/tmp/backup_fragments'' 0 = Inr (''/tmp/backup_fragments'', empty_directory)
   \<and> read_buffer_error friendly_os (- 1) = None
   \<and> [1, 2, 3 :: byte] \<noteq> []
   \<and> \<not> write_unit_fails friendly_os empty_directory ''/tmp/backup_fragments/backup.zip.part001''
   \<and> split_file friendly_os (Some (File [1, 2, 3])) empty_directory ''/tmp/backup.zip''
        ''/tmp/backup_fragments'' (- 1)
      = Inr (''/tmp/backup_fragments'',
             empty_directory(''backup.zip.part001'' \<mapsto> File [1, 2, 3]))"
  using split_file_nonpositive_size [OF open_backup_zip makedirs_examples(1),
      of "- (2 ^ 63) - 1" "[1, 2, 3]" empty_directory "- 5"]
    write_backup_zip_part001
  by (simp add: open_backup_zip makedirs_examples friendly_os_simps example_basenames
      backup_zip_part001 join_example_dirs)

section \<open>What the filter selects\<close>

lemma three_digit_number:
  assumes "y < 10" and "z < (10::nat)"
  shows "(100 * x + 10 * y + z) div 100 = x"
    and "(100 * x + 10 * y + z) div 10 mod 10 = y"
    and "(100 * x + 10 * y + z) mod 10 = z"
proof -
  have a: "10 * y + z < 100" using assms by linarith
  have "100 * x + 10 * y + z = x * 100 + (10 * y + z)" by simp
  then have "(100 * x + 10 * y + z) div 100 = (x * 100 + (10 * y + z)) div 100" by simp
  also have "\<dots> = x" using a by simp
  finally show "(100 * x + 10 * y + z) div 100 = x" .
  have b: "100 * x + 10 * y + z = (10 * x + y) * 10 + z" by simp
  have "(100 * x + 10 * y + z) div 10 = ((10 * x + y) * 10 + z) div 10"
    by (simp only: b)
  also have "\<dots> = 10 * x + y" using assms(2) by simp
  finally have c: "(100 * x + 10 * y + z) div 10 = 10 * x + y" .
  show "(100 * x + 10 * y + z) div 10 mod 10 = y"
    unfolding c using assms(1) by simp
  have "(100 * x + 10 * y + z) mod 10 = ((10 * x + y) * 10 + z) mod 10"
    by (simp only: b)
  also have "\<dots> = z" by (simp only: mod_mult_self3 mod_less [OF assms(2)])
  finally show "(100 * x + 10 * y + z) mod 10 = z" .
qed

lemma fmt03d_three_digits:
  assumes "x < 10" and "y < 10" and "z < 10"
  shows "fmt03d (100 * x + 10 * y + z) = [digit_char x, digit_char y, digit_char z]"
    and "100 * x + 10 * y + z < 1000"
proof -
  show lt: "100 * x + 10 * y + z < 1000" using assms by linarith
  show "fmt03d (100 * x + 10 * y + z) = [digit_char x, digit_char y, digit_char z]"
    unfolding fmt03d_small [OF lt] three_digit_number [OF assms(2,3)] ..
qed


lemma is_fragment_digits:
  assumes "x < 10" and "y < 10" and "z < 10"
  shows "is_fragment b (b @ mid @ ''.part'' @ [digit_char x, digit_char y, digit_char z])"
proof -
  have "is_fragment b (b @ mid @ ''.part'' @ fmt03d (100 * x + 10 * y + z))"
    using fmt03d_three_digits(2) [OF assms] by (rule is_fragment_between) simp
  then show ?thesis unfolding fmt03d_three_digits(1) [OF assms] .
qed



lemma a_zip_fragments:
  "is_fragment ''a.zip'' ''a.zip.part000''"
  "is_fragment ''a.zip'' ''a.zip.part001''"
  "is_fragment ''a.zip'' ''a.zip.old.part001''"
  "is_fragment ''a.zip'' ''a.zip.old.part002''"
  "\<not> is_fragment ''a.zip'' ''notes.txt''"
proof -
  show "is_fragment ''a.zip'' ''a.zip.part000''"
    using is_fragment_digits [of 0 0 0 "''a.zip''" "[]"] by (simp add: digit_chars)
  show "is_fragment ''a.zip'' ''a.zip.part001''"
    using is_fragment_digits [of 0 0 1 "''a.zip''" "[]"] by (simp add: digit_chars)
  show "is_fragment ''a.zip'' ''a.zip.old.part001''"
    using is_fragment_digits [of 0 0 1 "''a.zip''" "''.old''"] by (simp add: digit_chars)
  show "is_fragment ''a.zip'' ''a.zip.old.part002''"
    using is_fragment_digits [of 0 0 2 "''a.zip''" "''.old''"] by (simp add: digit_chars)
  show "\<not> is_fragment ''a.zip'' ''notes.txt''"
    using is_fragmentD [of "''a.zip''" "''notes.txt''"] by auto
qed


section \<open>The order of concatenation\<close>

lemma merge_files_selected:
  assumes pe: "path_error dir = None"
    and sel: "select_fragment_paths dir b listing = paths"
    and ne: "paths \<noteq> []"
    and mk: "os_makedirs env (os_path_dirname output_file_path) = None"
    and ow: "open_wb env output_file_path = None"
    and al: "\<forall>p\<in>set paths. \<not> aliases env output_file_path p"
  shows "merge_files env (Some d) (Inr listing) dir b output_file_path
         = Some (copy_fragments env d paths [])"
proof -
  have noal: "\<not> list_ex (aliases env output_file_path) paths"
    using al by (auto simp: list_ex_iff)
  show ?thesis
    unfolding merge_files_def
    by (simp only: option.case pe sum.case sel Let_def ne mk ow noal if_False
        not_None_eq simp_thms)
qed

lemma read_fragment_friendly:
  assumes "path_error p = None" and "os_path_basename p = f"
    and "f \<noteq> []" and "f \<noteq> ''.''" and "f \<noteq> ''..''"
    and "d f = Some (File b)"
  shows "read_fragment friendly_os d p = Some b"
  using assms by (simp add: read_fragment_def names_directory_def friendly_os_simps)

lemma aliases_friendly: "aliases friendly_os p q \<longleftrightarrow> p = q"
  by (simp add: aliases_def friendly_os_simps)

lemma sort_mixed_paths:
  "sort [''/mnt/usb/frags/a.zip.part001'', ''/mnt/usb/frags/a.zip.old.part002'']
   = [''/mnt/usb/frags/a.zip.old.part002'', ''/mnt/usb/frags/a.zip.part001'']"
  by (simp add: less_char_def)

text \<open>
  C3, as the claim states it, fails. The fragment paths are sorted as strings, and the
  filter also accepts names with characters between the prefix and the suffix. In a
  directory holding \<^verbatim>\<open>a.zip.part001\<close> (byte 1) and \<^verbatim>\<open>a.zip.old.part002\<close> (byte 2), both are
  selected for the prefix \<^verbatim>\<open>a.zip\<close>, and the entry with suffix 002 is written before the
  entry with suffix 001.
\<close>

theorem merge_files_order_counterexample:
  "merge_files friendly_os (Some mixed_names_dir) (Inr [''a.zip.part001'', ''a.zip.old.part002''])
     ''/mnt/usb/frags'' ''a.zip'' ''/tmp/restore/a.zip'' = Some (Inr [2, 1])"
proof -
  let ?paths = "[''/mnt/usb/frags/a.zip.old.part002'', ''/mnt/usb/frags/a.zip.part001'']"
  have sel: "select_fragment_paths ''/mnt/usb/frags'' ''a.zip''
               [''a.zip.part001'', ''a.zip.old.part002''] = ?paths"
    unfolding select_fragment_paths_def
    by (simp add: a_zip_fragments join_example_dirs less_char_def)
  have r2: "read_fragment friendly_os mixed_names_dir ''/mnt/usb/frags/a.zip.old.part002''
            = Some [2]"
    by (rule read_fragment_friendly [where f = "''a.zip.old.part002''"])
      (simp_all add: path_error_NoneI utf8_length_def os_path_basename_def mixed_names_dir_def)
  have r1: "read_fragment friendly_os mixed_names_dir ''/mnt/usb/frags/a.zip.part001''
            = Some [1]"
    by (rule read_fragment_friendly [where f = "''a.zip.part001''"])
      (simp_all add: path_error_NoneI utf8_length_def os_path_basename_def mixed_names_dir_def)
  have c: "copy_fragments friendly_os mixed_names_dir ?paths [] = Inr [2, 1]"
    by (simp add: r1 r2)
  have "merge_files friendly_os (Some mixed_names_dir)
          (Inr [''a.zip.part001'', ''a.zip.old.part002''])
          ''/mnt/usb/frags'' ''a.zip'' ''/tmp/restore/a.zip''
        = Some (copy_fragments friendly_os mixed_names_dir ?paths [])"
    by (rule merge_files_selected [OF _ sel])
      (simp_all add: example_paths example_dirnames makedirs_examples open_wb_examples
        aliases_friendly)
  then show ?thesis by (simp only: c)
qed

text \<open>
  C3, amended. Let \<^verbatim>\<open>fragments_source_dir\<close> be a directory whose listing holds no name
  twice, let the base name hold no \<^verbatim>\<open>/\<close>, and let the entries that the filter selects be
  named exactly \<^verbatim>\<open><base>.partNNN\<close> for the numbers of a non-empty list \<open>js\<close> of numbers below
  1000 in ascending order (no entry with other text between the base name and the
  suffix passes the filter). When \<^verbatim>\<open>os.makedirs\<close> can make the directory of the output
  path, the output file can be opened for writing and is none of the selected fragments,
  and every selected fragment can be read, \<^verbatim>\<open>merge_files\<close> writes the contents of the
  fragments in strictly ascending order of their numbers, whatever order the directory
  listing has.
\<close>

theorem merge_files_numeric_order:
  assumes "distinct listing"
    and "set (filter (is_fragment base) listing) = fragment_name base ` set js"
    and "sorted_wrt (<) js"
    and "\<forall>i\<in>set js. i < 1000"
    and "js \<noteq> []"
    and "CHR ''/'' \<notin> set base"
    and "path_error dir = None"
    and "os_makedirs env (os_path_dirname output_file_path) = None"
    and "open_wb env output_file_path = None"
    and "\<forall>i\<in>set js. \<not> aliases env output_file_path (os_path_join dir (fragment_name base i))"
    and "\<forall>i\<in>set js. read_fragment env frags (os_path_join dir (fragment_name base i))
                        = Some (content i)"
  shows "merge_files env (Some frags) (Inr listing) dir base output_file_path
         = Some (Inr (concat (map content js)))"
  using assms(1-4) _ assms(5-11) by (rule merge_files_indices) simp

lemma twelve_names:
  "fragment_name ''f'' 1 = ''f.part001''" "fragment_name ''f'' 2 = ''f.part002''"
  "fragment_name ''f'' 3 = ''f.part003''" "fragment_name ''f'' 4 = ''f.part004''"
  "fragment_name ''f'' 5 = ''f.part005''" "fragment_name ''f'' 6 = ''f.part006''"
  "fragment_name ''f'' 7 = ''f.part007''" "fragment_name ''f'' 8 = ''f.part008''"
  "fragment_name ''f'' 9 = ''f.part009''" "fragment_name ''f'' 10 = ''f.part010''"
  "fragment_name ''f'' 11 = ''f.part011''" "fragment_name ''f'' 12 = ''f.part012''"
  "fragment_name ''f'' (Suc 0) = ''f.part001''"
  by (simp_all add: fragment_name_def fmt03d_small digit_chars)

lemma twelve_mapped:
  "map (fragment_name ''f'') [1, 2, 3, 4, 5, 6, 7, 8, 9, 10, 11, 12]
   = [''f.part001'', ''f.part002'', ''f.part003'', ''f.part004'', ''f.part005'', ''f.part006'',
      ''f.part007'', ''f.part008'', ''f.part009'', ''f.part010'', ''f.part011'', ''f.part012'']"
  by (simp only: list.map twelve_names)

lemma twelve_are_fragments:
  "is_fragment ''f'' ''f.part001''" "is_fragment ''f'' ''f.part002''"
  "is_fragment ''f'' ''f.part003''" "is_fragment ''f'' ''f.part004''"
  "is_fragment ''f'' ''f.part005''" "is_fragment ''f'' ''f.part006''"
  "is_fragment ''f'' ''f.part007''" "is_fragment ''f'' ''f.part008''"
  "is_fragment ''f'' ''f.part009''" "is_fragment ''f'' ''f.part010''"
  "is_fragment ''f'' ''f.part011''" "is_fragment ''f'' ''f.part012''"
proof -
  have p: "is_fragment ''f'' (fragment_name ''f'' i)" if "i < 13" for i
    using that by (simp add: is_fragment_fragment_name)
  show "is_fragment ''f'' ''f.part001''" using p [of 1] by (simp add: twelve_names)
  show "is_fragment ''f'' ''f.part002''" using p [of 2] by (simp add: twelve_names)
  show "is_fragment ''f'' ''f.part003''" using p [of 3] by (simp add: twelve_names)
  show "is_fragment ''f'' ''f.part004''" using p [of 4] by (simp add: twelve_names)
  show "is_fragment ''f'' ''f.part005''" using p [of 5] by (simp add: twelve_names)
  show "is_fragment ''f'' ''f.part006''" using p [of 6] by (simp add: twelve_names)
  show "is_fragment ''f'' ''f.part007''" using p [of 7] by (simp add: twelve_names)
  show "is_fragment ''f'' ''f.part008''" using p [of 8] by (simp add: twelve_names)
  show "is_fragment ''f'' ''f.part009''" using p [of 9] by (simp add: twelve_names)
  show "is_fragment ''f'' ''f.part010''" using p [of 10] by (simp add: twelve_names)
  show "is_fragment ''f'' ''f.part011''" using p [of 11] by (simp add: twelve_names)
  show "is_fragment ''f'' ''f.part012''" using p [of 12] by (simp add: twelve_names)
qed

lemma twelve_selected:
  "filter (is_fragment ''f'') reversed_listing =
     [''f.part012'', ''f.part011'', ''f.part010'', ''f.part009'', ''f.part008'', ''f.part007'',
      ''f.part006'', ''f.part005'', ''f.part004'', ''f.part003'', ''f.part002'', ''f.part001'']"
proof -
  have no: "\<not> is_fragment ''f'' ''notes.txt''"
    using is_fragmentD [of "''f''" "''notes.txt''"] by auto
  show ?thesis
    by (simp add: reversed_listing_def twelve_are_fragments no)
qed

lemma twelve_readable:
  assumes "i \<in> set [1, 2, 3, 4, 5, 6, 7, 8, 9, 10, 11, 12]"
  shows "read_fragment friendly_os twelve_fragments_dir
           (os_path_join ''/mnt/usb/frags'' (fragment_name ''f'' i)) = Some [of_nat i]"
proof -
  have ns: "CHR ''/'' \<notin> set ''f''" by simp
  have lt: "i < 100000" using assms by auto
  have p: "os_path_join ''/mnt/usb/frags'' (fragment_name ''f'' i)
           = ''/mnt/usb/frags/f.part'' @ fmt03d i"
    by (simp add: fragment_name_def join_example_dirs)
  have pe: "path_error (os_path_join ''/mnt/usb/frags'' (fragment_name ''f'' i)) = None"
    unfolding p by (rule numbered_path_ok [OF _ _ _ lt]) (simp_all add: utf8_length_def)
  have bn: "os_path_basename (os_path_join ''/mnt/usb/frags'' (fragment_name ''f'' i))
            = fragment_name ''f'' i"
    by (rule basename_join) (rule fragment_name_slash_free [OF ns])
  have look: "twelve_fragments_dir (fragment_name ''f'' i) = Some (File [of_nat i])"
    using assms by (auto simp: twelve_names twelve_fragments_dir_def)
  show ?thesis
    using pe bn fragment_name_not_directory [of "''f''" i] look
    by (intro read_fragment_friendly [where f = "fragment_name ''f'' i"]) simp_all
qed

theorem merge_files_numeric_order_witness:
  "distinct reversed_listing
   \<and> set (filter (is_fragment ''f'') reversed_listing)
       = fragment_name ''f'' ` set [1, 2, 3, 4, 5, 6, 7, 8, 9, 10, 11, 12]
   \<and> sorted_wrt (<) [1, 2, 3, 4, 5, 6, 7, 8, 9, 10, 11, 12 :: nat]
   \<and> CHR ''/'' \<notin> set ''f''
   \<and> path_error ''/mnt/usb/frags'' = None
   \<and> os_makedirs friendly_os (os_path_dirname ''/tmp/restore/f'') = None
   \<and> open_wb friendly_os ''/tmp/restore/f'' = None
   \<and> merge_files friendly_os (Some twelve_fragments_dir) (Inr reversed_listing)
        ''/mnt/usb/frags'' ''f'' ''/tmp/restore/f''
      = Some (Inr [1, 2, 3, 4, 5, 6, 7, 8, 9, 10, 11, 12])"
proof -
  let ?js = "[1, 2, 3, 4, 5, 6, 7, 8, 9, 10, 11, 12 :: nat]"
  have a: "distinct reversed_listing" by (simp add: reversed_listing_def)
  have b: "set (filter (is_fragment ''f'') reversed_listing) = fragment_name ''f'' ` set ?js"
    unfolding twelve_selected set_map [symmetric] twelve_mapped by auto
  have c: "sorted_wrt (<) ?js" by simp
  have d: "\<forall>i\<in>set ?js. i < 1000" by simp
  have ne: "?js \<noteq> []" by simp
  have ns: "CHR ''/'' \<notin> set ''f''" by simp
  have pe: "path_error ''/mnt/usb/frags'' = None" by (rule example_paths)
  have mk: "os_makedirs friendly_os (os_path_dirname ''/tmp/restore/f'') = None"
    by (simp add: example_dirnames makedirs_examples)
  have ow: "open_wb friendly_os ''/tmp/restore/f'' = None" by (rule open_wb_examples)
  have al: "\<forall>i\<in>set ?js. \<not> aliases friendly_os ''/tmp/restore/f''
                            (os_path_join ''/mnt/usb/frags'' (fragment_name ''f'' i))"
    by (simp add: aliases_friendly fragment_name_def join_example_dirs)
  have rd: "\<forall>i\<in>set ?js. read_fragment friendly_os twelve_fragments_dir
                            (os_path_join ''/mnt/usb/frags'' (fragment_name ''f'' i))
                          = Some [of_nat i]"
    using twelve_readable by blast
  have g: "concat (map (\<lambda>i. [of_nat i]) ?js) = [1, 2, 3, 4, 5, 6, 7, 8, 9, 10, 11, 12 :: byte]"
    by simp
  have "merge_files friendly_os (Some twelve_fragments_dir) (Inr reversed_listing)
          ''/mnt/usb/frags'' ''f'' ''/tmp/restore/f''
        = Some (Inr (concat (map (\<lambda>i. [of_nat i]) ?js)))"
    using a b c d ne ns pe mk ow al rd by (rule merge_files_numeric_order)
  then show ?thesis
    using a b c ns pe mk ow unfolding g by (simp only: simp_thms)
qed

section \<open>Splitting, then merging\<close>

lemma map_nth_take: "m \<le> length xs \<Longrightarrow> map (\<lambda>i. xs ! i) [0..<m] = take m xs"
  by (simp add: list_eq_iff_nth_eq)

lemma merge_after_split:
  assumes n: "0 < n" and ne: "content \<noteq> []"
    and stale: "\<forall>f\<in>dom frags. is_fragment b f \<longrightarrow>
                  (\<exists>i<length (chunks n content). f = fragment_name b (Suc i))"
    and ns: "CHR ''/'' \<notin> set b"
    and dl: "distinct listing"
    and sl: "set listing = dom (expected_fragments frags b n content)"
    and pe: "path_error dir = None"
    and mk: "os_makedirs env (os_path_dirname output_file_path) = None"
    and ow: "open_wb env output_file_path = None"
    and al: "\<forall>i<length (chunks n content).
               \<not> aliases env output_file_path (os_path_join dir (fragment_name b (Suc i)))"
    and rd: "\<forall>i<length (chunks n content).
               path_error (os_path_join dir (fragment_name b (Suc i))) = None
               \<and> \<not> read_fails env (os_path_join dir (fragment_name b (Suc i)))"
  shows "merge_files env (Some (expected_fragments frags b n content)) (Inr listing) dir b
           output_file_path = Some (Inr (take (999 * n) content))"
proof -
  define cs where "cs = chunks n content"
  define k where "k = length cs"
  define m where "m = min k 999"
  define js where "js = map Suc [0..<m]"
  let ?d = "expected_fragments frags b n content"
  have kpos: "0 < k"
    using chunks_nonempty_list [OF n ne] by (simp add: k_def cs_def)
  have mk': "m \<le> k" and m999: "m \<le> 999" by (simp_all add: m_def)
  have mpos: "0 < m" using kpos by (simp add: m_def)
  have mem_js: "x \<in> set js \<longleftrightarrow> (\<exists>i<m. x = Suc i)" for x
    unfolding js_def by (cases x) auto
  have frag: "is_fragment b (fragment_name b (Suc i)) \<longleftrightarrow> i < 999" for i
  proof -
    have "Suc i < 1000 \<longleftrightarrow> i < 999" by linarith
    then show ?thesis by (simp only: is_fragment_fragment_name)
  qed
  have listing: "set listing = dom frags \<union> (\<lambda>i. fragment_name b (Suc i)) ` {0..<k}"
    unfolding sl expected_fragments_dom k_def cs_def ..
  have written: "\<exists>i<k. f = fragment_name b (Suc i)"
    if fl: "f \<in> set listing" and fr: "is_fragment b f" for f
  proof (cases "f \<in> dom frags")
    case True
    with stale have "is_fragment b f \<longrightarrow>
                  (\<exists>i<length (chunks n content). f = fragment_name b (Suc i))"
      by (rule bspec)
    then show ?thesis unfolding k_def cs_def using fr by (rule mp)
  next
    case False
    with fl listing have "f \<in> (\<lambda>i. fragment_name b (Suc i)) ` {0..<k}" by simp
    then show ?thesis by auto
  qed
  have sel: "set (filter (is_fragment b) listing) = fragment_name b ` set js"
  proof (rule set_eqI, rule iffI)
    fix f
    assume "f \<in> set (filter (is_fragment b) listing)"
    then have fl: "f \<in> set listing" and fr: "is_fragment b f" by simp_all
    from written [OF fl fr] obtain i where i: "i < k" and f: "f = fragment_name b (Suc i)"
      by (elim exE conjE)
    from fr f have "i < 999" by (simp only: frag)
    with i have "i < m" by (simp add: m_def)
    then have "Suc i \<in> set js" unfolding mem_js by blast
    with f show "f \<in> fragment_name b ` set js" by blast
  next
    fix f
    assume "f \<in> fragment_name b ` set js"
    then obtain x where "x \<in> set js" and fx: "f = fragment_name b x" by blast
    then obtain i where i: "i < m" and f: "f = fragment_name b (Suc i)"
      unfolding mem_js by blast
    from i mk' have "f \<in> set listing" unfolding listing f by simp
    moreover from i m999 have "i < 999" by linarith
    then have "is_fragment b f" unfolding f by (simp only: frag)
    ultimately show "f \<in> set (filter (is_fragment b) listing)" by simp
  qed
  have sorted: "sorted_wrt (<) js"
    by (simp add: js_def sorted_wrt_map)
  have bound: "\<forall>i\<in>set js. i < Suc m" by (auto simp: mem_js)
  have N: "Suc m \<le> 1000" using m999 by linarith
  have jne: "js \<noteq> []" using mpos by (simp add: js_def)
  have look: "?d (fragment_name b (Suc i)) = Some (File (cs ! i))" if "i < m" for i
    unfolding cs_def using that mk'
    by (intro expected_fragments_lookup) (simp add: k_def cs_def)
  have bn: "os_path_basename (os_path_join dir (fragment_name b i)) = fragment_name b i" for i
    by (rule basename_join) (rule fragment_name_slash_free [OF ns])
  have read: "read_fragment env ?d (os_path_join dir (fragment_name b (Suc i))) = Some (cs ! i)"
    if "i < m" for i
  proof -
    from that mk' have "i < length (chunks n content)" by (simp add: k_def cs_def)
    with rd have "path_error (os_path_join dir (fragment_name b (Suc i))) = None"
      and "\<not> read_fails env (os_path_join dir (fragment_name b (Suc i)))"
      by simp_all
    then show ?thesis
      using fragment_path_not_directory [OF ns, of dir "Suc i"] look [OF that]
      by (simp add: read_fragment_def bn)
  qed
  have rds: "\<forall>i\<in>set js. read_fragment env ?d (os_path_join dir (fragment_name b i))
                           = Some (cs ! (i - 1))"
    using read by (auto simp: mem_js)
  have als: "\<forall>i\<in>set js. \<not> aliases env output_file_path (os_path_join dir (fragment_name b i))"
  proof
    fix x
    assume "x \<in> set js"
    then obtain i where i: "i < m" and x: "x = Suc i" unfolding mem_js by blast
    from i mk' have "i < length (chunks n content)" by (simp add: k_def cs_def)
    with al show "\<not> aliases env output_file_path (os_path_join dir (fragment_name b x))"
      unfolding x by simp
  qed
  have "merge_files env (Some ?d) (Inr listing) dir b output_file_path
        = Some (Inr (concat (map (\<lambda>i. cs ! (i - 1)) js)))"
    using dl sel sorted bound N jne ns pe mk ow als rds by (rule merge_files_indices)
  also have "map (\<lambda>i. cs ! (i - 1)) js = map (\<lambda>i. cs ! i) [0..<m]"
    by (simp add: js_def)
  also have "\<dots> = take m cs" using mk' by (simp add: map_nth_take k_def)
  also have "concat (take m cs) = take (m * n) content"
    unfolding cs_def using n by (rule concat_take_chunks)
  also have "take (m * n) content = take (999 * n) content"
  proof (cases "k \<le> 999")
    case True
    then have "m = k" by (simp add: m_def)
    moreover have "length content \<le> k * n"
      using length_chunks_le [OF n, of content k] by (simp add: k_def cs_def)
    moreover from this True have "length content \<le> 999 * n"
      by (meson le_trans mult_le_mono1)
    ultimately show ?thesis by simp
  next
    case False
    then show ?thesis by (simp add: m_def)
  qed
  finally show ?thesis .
qed

lemma write_unit_path_error:
  "\<not> write_unit_fails env d p \<Longrightarrow> path_error p = None"
  by (simp add: write_unit_fails_def)

lemma backup_fragment_path:
  "os_path_join ''/tmp/backup_fragments'' (fragment_name ''backup.zip'' i)
   = ''/tmp/backup_fragments/backup.zip.part'' @ fmt03d i"
  by (simp add: fragment_name_def join_example_dirs)

lemma backup_fragment_path_ok:
  assumes "i < 100000"
  shows "path_error (os_path_join ''/tmp/backup_fragments'' (fragment_name ''backup.zip'' i))
         = None"
  unfolding backup_fragment_path
  by (rule numbered_path_ok [OF _ _ _ assms]) (simp_all add: utf8_length_def)

lemma backup_fragment_write_ok:
  assumes "i < 100000"
  shows "\<not> write_unit_fails friendly_os empty_directory
            (os_path_join ''/tmp/backup_fragments'' (fragment_name ''backup.zip'' i))"
proof -
  have ns: "CHR ''/'' \<notin> set ''backup.zip''" by simp
  show ?thesis
    using backup_fragment_path_ok [OF assms] fragment_path_not_directory [OF ns]
    by (simp add: write_unit_fails_def empty_directory_def friendly_os_simps)
qed

lemma backup_fragment_no_alias:
  "\<not> aliases friendly_os ''/tmp/restore/backup.zip''
       (os_path_join ''/tmp/backup_fragments'' (fragment_name ''backup.zip'' i))"
  by (simp add: aliases_friendly backup_fragment_path)

text \<open>
  C1, as the claim states it, fails for a file of length zero: \<^verbatim>\<open>split_file\<close> writes no
  fragment, and \<^verbatim>\<open>merge_files\<close> on the directory then raises \<^verbatim>\<open>FileNotFoundError\<close> because no
  fragment is found.
\<close>

theorem split_then_merge_empty_counterexample:
  "split_file friendly_os (Some (File [])) empty_directory ''/tmp/backup.zip''
     ''/tmp/backup_fragments'' 1024
     = Inr (''/tmp/backup_fragments'', empty_directory)
   \<and> merge_files friendly_os (Some empty_directory) (Inr []) ''/tmp/backup_fragments''
       ''backup.zip'' ''/tmp/restore/backup.zip''
     = Some (Inl (NoFragmentsFound ''backup.zip'' ''/tmp/backup_fragments''))"
proof
  have "os_path_exists ''/tmp/backup.zip'' (Some (File []))"
    using open_backup_zip [of "[]"] by (rule open_rb_Inr)
  then show "split_file friendly_os (Some (File [])) empty_directory ''/tmp/backup.zip''
     ''/tmp/backup_fragments'' 1024
     = Inr (''/tmp/backup_fragments'', empty_directory)"
    by (simp add: split_file_def makedirs_examples open_backup_zip split_loop_empty
        friendly_os_simps)
  show "merge_files friendly_os (Some empty_directory) (Inr []) ''/tmp/backup_fragments''
       ''backup.zip'' ''/tmp/restore/backup.zip''
     = Some (Inl (NoFragmentsFound ''backup.zip'' ''/tmp/backup_fragments''))"
    by (simp add: merge_files_def example_paths select_fragment_paths_def)
qed

text \<open>
  C1, amended. Let the input file exist, be openable and non-empty, let \<^verbatim>\<open>os.makedirs\<close> be
  able to make the fragments directory, and let the fragment size be positive, below
  \<open>2 ^ 63\<close>, such that the read buffer can be allocated and that the file needs at most 999
  fragments. Let every write unit succeed, and let every entry that the fragments
  directory holds before the call and that the filter of \<^verbatim>\<open>merge_files\<close> selects for the
  base name of the file carry the name of a fragment that this call writes (so no other
  entry passes the filter afterwards). Then \<^verbatim>\<open>split_file\<close> returns the fragments directory
  with fragment \<open>i\<close> holding the \<open>i\<close>-th block of the file. If then, for a listing of that
  directory without repetition, \<^verbatim>\<open>os.makedirs\<close> can make the directory of the output path,
  the output file can be opened for writing and is none of the fragments, and no read of
  a fragment fails, \<^verbatim>\<open>merge_files\<close> with the base name of the file writes exactly the bytes
  of the original file, whatever order the listing has and whether or not the size divides
  the length of the file.
\<close>

theorem split_then_merge:
  assumes "open_rb env large_file_path source = Inr content"
    and "os_makedirs env fragments_dir = None"
    and "0 < fragment_size_bytes"
    and "fragment_size_bytes < 2 ^ 63"
    and "read_buffer_error env fragment_size_bytes = None"
    and "content \<noteq> []"
    and "length content \<le> 999 * nat fragment_size_bytes"
    and "\<forall>i<length (chunks (nat fragment_size_bytes) content).
           \<not> write_unit_fails env frags
               (os_path_join fragments_dir
                  (fragment_name (os_path_basename large_file_path) (Suc i)))"
    and "\<forall>f\<in>dom frags. is_fragment (os_path_basename large_file_path) f \<longrightarrow>
           (\<exists>i<length (chunks (nat fragment_size_bytes) content).
              f = fragment_name (os_path_basename large_file_path) (Suc i))"
    and "distinct listing"
    and "set listing = dom (expected_fragments frags (os_path_basename large_file_path)
                             (nat fragment_size_bytes) content)"
    and "os_makedirs env (os_path_dirname output_file_path) = None"
    and "open_wb env output_file_path = None"
    and "\<forall>i<length (chunks (nat fragment_size_bytes) content).
           \<not> aliases env output_file_path
               (os_path_join fragments_dir
                  (fragment_name (os_path_basename large_file_path) (Suc i)))"
    and "\<forall>i<length (chunks (nat fragment_size_bytes) content).
           \<not> read_fails env
               (os_path_join fragments_dir
                  (fragment_name (os_path_basename large_file_path) (Suc i)))"
  shows "split_file env source frags large_file_path fragments_dir fragment_size_bytes
         = Inr (fragments_dir, expected_fragments frags (os_path_basename large_file_path)
                                 (nat fragment_size_bytes) content)
       \<and> merge_files env
           (Some (expected_fragments frags (os_path_basename large_file_path)
                    (nat fragment_size_bytes) content))
           (Inr listing) fragments_dir (os_path_basename large_file_path) output_file_path
         = Some (Inr content)"
proof
  show "split_file env source frags large_file_path fragments_dir fragment_size_bytes
         = Inr (fragments_dir, expected_fragments frags (os_path_basename large_file_path)
                                 (nat fragment_size_bytes) content)"
    using assms(1-6,8) by (rule split_file_expected)
next
  have n: "0 < nat fragment_size_bytes" using assms(3) by simp
  have pe: "path_error fragments_dir = None" using assms(2) by (rule os_makedirs_None)
  have rd: "\<forall>i<length (chunks (nat fragment_size_bytes) content).
              path_error (os_path_join fragments_dir
                  (fragment_name (os_path_basename large_file_path) (Suc i))) = None
              \<and> \<not> read_fails env (os_path_join fragments_dir
                  (fragment_name (os_path_basename large_file_path) (Suc i)))"
    using assms(8,15) write_unit_path_error by blast
  have "merge_files env
           (Some (expected_fragments frags (os_path_basename large_file_path)
                    (nat fragment_size_bytes) content))
           (Inr listing) fragments_dir (os_path_basename large_file_path) output_file_path
         = Some (Inr (take (999 * nat fragment_size_bytes) content))"
    using n assms(6,9) basename_no_slash assms(10,11) pe assms(12-14) rd
    by (rule merge_after_split)
  then show "merge_files env
           (Some (expected_fragments frags (os_path_basename large_file_path)
                    (nat fragment_size_bytes) content))
           (Inr listing) fragments_dir (os_path_basename large_file_path) output_file_path
         = Some (Inr content)"
    using assms(7) by simp
qed

lemma backup_fragment_write_files:
  assumes "i < 100000" and "\<forall>f. d f \<noteq> Some Dir"
  shows "\<not> write_unit_fails friendly_os d
            (os_path_join ''/tmp/backup_fragments'' (fragment_name ''backup.zip'' i))"
proof -
  have ns: "CHR ''/'' \<notin> set ''backup.zip''" by simp
  show ?thesis
    using backup_fragment_path_ok [OF assms(1)] fragment_path_not_directory [OF ns] assms(2)
    by (simp add: write_unit_fails_def friendly_os_simps)
qed

lemma chunks_five_bytes: "chunks 2 [1, 2, 3, 4, 5 :: byte] = [[1, 2], [3, 4], [5]]"
  by (simp add: chunks.simps)

lemma backup_zip_names:
  "fragment_name ''backup.zip'' (Suc 0) = ''backup.zip.part001''"
  "fragment_name ''backup.zip'' (Suc (Suc 0)) = ''backup.zip.part002''"
  "fragment_name ''backup.zip'' (Suc (Suc (Suc 0))) = ''backup.zip.part003''"
proof -
  have s: "Suc (Suc 0) = 2" "Suc (Suc (Suc 0)) = 3" by simp_all
  show "fragment_name ''backup.zip'' (Suc 0) = ''backup.zip.part001''"
    by (simp add: fragment_name_def fmt03d_small digit_chars)
  show "fragment_name ''backup.zip'' (Suc (Suc 0)) = ''backup.zip.part002''"
    unfolding s by (simp add: fragment_name_def fmt03d_small digit_chars)
  show "fragment_name ''backup.zip'' (Suc (Suc (Suc 0))) = ''backup.zip.part003''"
    unfolding s by (simp add: fragment_name_def fmt03d_small digit_chars)
qed

lemma expected_five_bytes:
  "expected_fragments stale_fragments_dir ''backup.zip'' 2 [1, 2, 3, 4, 5] = five_bytes_fragments"
proof (rule ext)
  fix f
  have "[0..<Suc (Suc (Suc 0))] = [0, Suc 0, Suc (Suc 0)]" by simp
  then show "expected_fragments stale_fragments_dir ''backup.zip'' 2 [1, 2, 3, 4, 5] f
             = five_bytes_fragments f"
    by (simp add: expected_fragments_def chunks_five_bytes backup_zip_names
        stale_fragments_dir_def five_bytes_fragments_def map_add_def)
qed

lemma stale_entries_rewritten:
  assumes "0 < k"
  shows "\<forall>f\<in>dom stale_fragments_dir. is_fragment ''backup.zip'' f \<longrightarrow>
           (\<exists>i<k. f = fragment_name ''backup.zip'' (Suc i))"
proof -
  have no: "\<not> is_fragment ''backup.zip'' ''notes.txt''"
    using is_fragmentD [of "''backup.zip''" "''notes.txt''"] by auto
  have "\<exists>i<k. ''backup.zip.part001'' = fragment_name ''backup.zip'' (Suc i)"
    using assms by (intro exI [of _ 0]) (simp add: backup_zip_names)
  with no show ?thesis by (simp add: stale_fragments_dir_def)
qed

lemma stale_fragments_files: "\<forall>f. stale_fragments_dir f \<noteq> Some Dir"
  by (simp add: stale_fragments_dir_def)

theorem split_then_merge_witness:
  "open_rb friendly_os ''/tmp/backup.zip'' (Some (File [1, 2, 3, 4, 5])) = Inr [1, 2, 3, 4, 5]
   \<and> os_makedirs friendly_os ''/tmp/backup_fragments'' = None
   \<and> (0::int) < 2 \<and> (2::int) < 2 ^ 63
   \<and> read_buffer_error friendly_os 2 = None
   \<and> [1, 2, 3, 4, 5 :: byte] \<noteq> []
   \<and> length [1, 2, 3, 4, 5 :: byte] \<le> 999 * nat 2
   \<and> is_fragment ''backup.zip'' ''backup.zip.part001''
   \<and> stale_fragments_dir ''backup.zip.part001'' = Some (File [9])
   \<and> distinct [''backup.zip.part002'', ''notes.txt'', ''backup.zip.part003'',
                ''backup.zip.part001'']
   \<and> set [''backup.zip.part002'', ''notes.txt'', ''backup.zip.part003'', ''backup.zip.part001'']
      = dom five_bytes_fragments
   \<and> os_makedirs friendly_os (os_path_dirname ''/tmp/restore/backup.zip'') = None
   \<and> open_wb friendly_os ''/tmp/restore/backup.zip'' = None
   \<and> split_file friendly_os (Some (File [1, 2, 3, 4, 5])) stale_fragments_dir
        ''/tmp/backup.zip'' ''/tmp/backup_fragments'' 2
      = Inr (''/tmp/backup_fragments'', five_bytes_fragments)
   \<and> merge_files friendly_os (Some five_bytes_fragments)
        (Inr [''backup.zip.part002'', ''notes.txt'', ''backup.zip.part003'',
              ''backup.zip.part001''])
        ''/tmp/backup_fragments'' ''backup.zip'' ''/tmp/restore/backup.zip''
      = Some (Inr [1, 2, 3, 4, 5])"
proof -
  let ?listing = "[''backup.zip.part002'', ''notes.txt'', ''backup.zip.part003'',
                   ''backup.zip.part001'']"
  have b: "os_path_basename ''/tmp/backup.zip'' = ''backup.zip''" by (rule example_basenames)
  have n2: "nat 2 = 2" by simp
  have h1: "open_rb friendly_os ''/tmp/backup.zip'' (Some (File [1, 2, 3, 4, 5]))
            = Inr [1, 2, 3, 4, 5]"
    by (rule open_backup_zip)
  have h2: "os_makedirs friendly_os ''/tmp/backup_fragments'' = None"
    by (rule makedirs_examples)
  have h3: "(0::int) < 2" and h4: "(2::int) < 2 ^ 63" by simp_all
  have h5: "read_buffer_error friendly_os 2 = None" by (rule friendly_os_simps)
  have h6: "[1, 2, 3, 4, 5 :: byte] \<noteq> []" by simp
  have h7: "length [1, 2, 3, 4, 5 :: byte] \<le> 999 * nat 2" by simp
  note files = stale_fragments_files
  have h8: "\<forall>i<length (chunks (nat 2) [1, 2, 3, 4, 5 :: byte]).
              \<not> write_unit_fails friendly_os stale_fragments_dir
                  (os_path_join ''/tmp/backup_fragments''
                     (fragment_name (os_path_basename ''/tmp/backup.zip'') (Suc i)))"
    unfolding b n2 chunks_five_bytes
    by (intro allI impI backup_fragment_write_files files) simp
  have h9: "\<forall>f\<in>dom stale_fragments_dir.
              is_fragment (os_path_basename ''/tmp/backup.zip'') f \<longrightarrow>
              (\<exists>i<length (chunks (nat 2) [1, 2, 3, 4, 5 :: byte]).
                 f = fragment_name (os_path_basename ''/tmp/backup.zip'') (Suc i))"
    unfolding b n2 chunks_five_bytes by (rule stale_entries_rewritten) simp
  have e: "expected_fragments stale_fragments_dir (os_path_basename ''/tmp/backup.zip'') (nat 2)
             [1, 2, 3, 4, 5] = five_bytes_fragments"
    unfolding b n2 by (rule expected_five_bytes)
  have e': "expected_fragments stale_fragments_dir ''backup.zip'' (nat 2) [1, 2, 3, 4, 5]
            = five_bytes_fragments"
    unfolding n2 by (rule expected_five_bytes)
  have h10: "distinct ?listing" by simp
  have dom5: "set ?listing = dom five_bytes_fragments"
    by (auto simp: five_bytes_fragments_def)
  have h11: "set ?listing
             = dom (expected_fragments stale_fragments_dir
                      (os_path_basename ''/tmp/backup.zip'') (nat 2) [1, 2, 3, 4, 5])"
    unfolding e by (rule dom5)
  have h12: "os_makedirs friendly_os (os_path_dirname ''/tmp/restore/backup.zip'') = None"
    by (simp add: example_dirnames makedirs_examples)
  have h13: "open_wb friendly_os ''/tmp/restore/backup.zip'' = None"
    by (rule open_wb_examples)
  have h14: "\<forall>i<length (chunks (nat 2) [1, 2, 3, 4, 5 :: byte]).
               \<not> aliases friendly_os ''/tmp/restore/backup.zip''
                   (os_path_join ''/tmp/backup_fragments''
                      (fragment_name (os_path_basename ''/tmp/backup.zip'') (Suc i)))"
    unfolding b by (intro allI impI backup_fragment_no_alias)
  have h15: "\<forall>i<length (chunks (nat 2) [1, 2, 3, 4, 5 :: byte]).
               \<not> read_fails friendly_os
                   (os_path_join ''/tmp/backup_fragments''
                      (fragment_name (os_path_basename ''/tmp/backup.zip'') (Suc i)))"
    by (simp add: friendly_os_simps)
  have st: "stale_fragments_dir ''backup.zip.part001'' = Some (File [9])"
    by (simp add: stale_fragments_dir_def)
  have main: "split_file friendly_os (Some (File [1, 2, 3, 4, 5])) stale_fragments_dir
        ''/tmp/backup.zip'' ''/tmp/backup_fragments'' 2
      = Inr (''/tmp/backup_fragments'', five_bytes_fragments)
   \<and> merge_files friendly_os (Some five_bytes_fragments) (Inr ?listing)
        ''/tmp/backup_fragments'' ''backup.zip'' ''/tmp/restore/backup.zip''
      = Some (Inr [1, 2, 3, 4, 5])"
    using split_then_merge [OF h1 h2 h3 h4 h5 h6 h7 h8 h9 h10 h11 h12 h13 h14 h15]
    unfolding b e' .
  show ?thesis
    using h1 h2 h3 h4 h5 h6 h7 a_zip_fragments st h10 dom5 h12 h13 main
      is_fragment_fragment_name [of "''backup.zip''" "Suc 0"]
    unfolding backup_zip_names
    by (simp only: simp_thms)
qed

section \<open>More than 999 fragments\<close>

lemma chunks_one: "chunks (Suc 0) xs = map (\<lambda>x. [x]) xs"
proof (induction xs)
  case Nil
  then show ?case by (simp add: chunks_Nil)
next
  case (Cons x xs)
  have "chunks (Suc 0) (x # xs) = take (Suc 0) (x # xs) # chunks (Suc 0) (drop (Suc 0) (x # xs))"
    by (rule chunks_step) simp_all
  with Cons show ?case by simp
qed

lemma large_fragment:
  assumes N: "1000 \<le> N" and k: "N \<le> length (chunks n content)"
  shows "expected_fragments frags b n content (b @ ''.part'' @ decimal N)
           = Some (File (chunks n content ! (N - 1)))
         \<and> 4 \<le> length (decimal N)
         \<and> (N < 10000 \<longrightarrow> length (decimal N) = 4)
         \<and> \<not> is_fragment b' (b @ ''.part'' @ decimal N)"
proof (intro conjI impI)
  from N have pos: "0 < N" by linarith
  then have s: "Suc (N - 1) = N" by simp
  from pos k have "N - 1 < length (chunks n content)" by linarith
  then have "expected_fragments frags b n content (fragment_name b (Suc (N - 1)))
             = Some (File (chunks n content ! (N - 1)))"
    by (rule expected_fragments_lookup)
  then show "expected_fragments frags b n content (b @ ''.part'' @ decimal N)
             = Some (File (chunks n content ! (N - 1)))"
    unfolding s fragment_name_def fmt03d_large [OF N] .
next
  have "(10::nat) ^ 3 \<le> N" using N by simp
  then have "3 < length (decimal N)" by (rule decimal_length_ge)
  then show four: "4 \<le> length (decimal N)" by linarith
  {
    assume "N < 10000"
    then have "N < 10 ^ Suc 3" by simp
    then have "length (decimal N) \<le> Suc 3" by (rule decimal_length_le)
    with four show "length (decimal N) = 4" by linarith
  }
  have "\<forall>c\<in>set (decimal N). \<exists>d<10. c = digit_char d"
    using decimal_digits by blast
  with four have "\<not> endswith_any ((b @ ''.part'') @ decimal N) part_suffixes"
    by (rule long_suffix_rejected)
  then show "\<not> is_fragment b' (b @ ''.part'' @ decimal N)"
    by (simp add: is_fragment_def)
qed

lemma split_backup_zip_bytes:
  assumes "0 < k" and "k < 100000" and files: "\<forall>f. d f \<noteq> Some Dir"
  shows "split_file friendly_os (Some (File (replicate k 7))) d ''/tmp/backup.zip''
           ''/tmp/backup_fragments'' 1
         = Inr (''/tmp/backup_fragments'',
                expected_fragments d ''backup.zip'' (Suc 0) (replicate k 7))"
proof -
  have n1: "nat 1 = Suc 0" by simp
  have len: "length (chunks (Suc 0) (replicate k (7::byte))) = k" by (simp add: chunks_one)
  have wf: "\<forall>i<length (chunks (nat 1) (replicate k (7::byte))).
              \<not> write_unit_fails friendly_os d
                  (os_path_join ''/tmp/backup_fragments''
                     (fragment_name (os_path_basename ''/tmp/backup.zip'') (Suc i)))"
    unfolding n1 len example_basenames
  proof (intro allI impI)
    fix i
    assume "i < k"
    with assms(2) have "Suc i < 100000" by linarith
    then show "\<not> write_unit_fails friendly_os d
                  (os_path_join ''/tmp/backup_fragments'' (fragment_name ''backup.zip'' (Suc i)))"
      using files by (rule backup_fragment_write_files)
  qed
  have ne: "replicate k (7::byte) \<noteq> []" using assms(1) by simp
  have "split_file friendly_os (Some (File (replicate k 7))) d ''/tmp/backup.zip''
           ''/tmp/backup_fragments'' 1
         = Inr (''/tmp/backup_fragments'',
                expected_fragments d (os_path_basename ''/tmp/backup.zip'') (nat 1)
                  (replicate k 7))"
    using open_backup_zip makedirs_examples(1) _ _ friendly_os_simps(3) ne wf
    by (rule split_file_expected) simp_all
  then show ?thesis unfolding n1 example_basenames .
qed

lemma decimal_1000: "decimal 1000 = ''1000''"
  by (simp add: decimal.simps [of 1000] decimal.simps [of 100]
      decimal.simps [of 10] decimal.simps [of "Suc 0"] digit_chars)

lemma decimal_10000: "decimal 10000 = ''10000''"
  by (simp add: decimal.simps [of 10000] decimal.simps [of 1000] decimal.simps [of 100]
      decimal.simps [of 10] decimal.simps [of "Suc 0"] digit_chars)

text \<open>
  C10, as the claim states it, fails in one detail: the suffix of a fragment numbered 1000
  or more is the plain decimal number, which has four digits only up to 9999. For a file of
  10000 bytes split with fragment size 1, fragment number 10000 is stored under a name with
  the five-digit suffix \<^verbatim>\<open>10000\<close>.
\<close>

theorem split_file_five_digits_counterexample:
  "split_file friendly_os (Some (File (replicate 10000 7))) empty_directory ''/tmp/backup.zip''
     ''/tmp/backup_fragments'' 1
   = Inr (''/tmp/backup_fragments'',
          expected_fragments empty_directory ''backup.zip'' (Suc 0) (replicate 10000 7))
   \<and> expected_fragments empty_directory ''backup.zip'' (Suc 0) (replicate 10000 7)
       ''backup.zip.part10000'' = Some (File [7])"
proof
  show "split_file friendly_os (Some (File (replicate 10000 7))) empty_directory
     ''/tmp/backup.zip'' ''/tmp/backup_fragments'' 1
   = Inr (''/tmp/backup_fragments'',
          expected_fragments empty_directory ''backup.zip'' (Suc 0) (replicate 10000 7))"
    by (rule split_backup_zip_bytes) (simp_all add: empty_directory_def)
next
  have len: "length (chunks (Suc 0) (replicate 10000 (7::byte))) = 10000"
    by (simp add: chunks_one)
  have "expected_fragments empty_directory ''backup.zip'' (Suc 0) (replicate 10000 7)
          (''backup.zip'' @ ''.part'' @ decimal 10000)
        = Some (File (chunks (Suc 0) (replicate 10000 7) ! (10000 - 1)))"
    using large_fragment [of 10000 "Suc 0" "replicate 10000 7" empty_directory "''backup.zip''"]
      len by simp
  also have "chunks (Suc 0) (replicate 10000 (7::byte)) ! (10000 - 1) = [7]"
    by (simp add: chunks_one)
  finally show "expected_fragments empty_directory ''backup.zip'' (Suc 0) (replicate 10000 7)
       ''backup.zip.part10000'' = Some (File [7])"
    by (simp add: decimal_10000)
qed

text \<open>
  C10, amended. Let the input file exist and be openable, let \<^verbatim>\<open>os.makedirs\<close> be able to
  make the fragments directory, and let the fragment size be positive, below \<open>2 ^ 63\<close>,
  such that the read buffer can be allocated and that the file needs more than 999
  fragments. Let every write unit succeed, and let every entry that the fragments
  directory holds before the call and that the filter selects for the base name carry the
  name of a fragment that this call writes. Then \<^verbatim>\<open>split_file\<close> does not fail. Fragment
  number \<open>N \<ge> 1000\<close> is stored under \<^verbatim>\<open><basename>.part\<close> followed by the plain decimal
  number \<open>N\<close>, of four digits up to 9999 and more beyond; the filter of \<^verbatim>\<open>merge_files\<close>
  rejects that name for every prefix. If then, for a listing of the directory without
  repetition, \<^verbatim>\<open>os.makedirs\<close> can make the directory of the output path, the output file
  can be opened for writing and is none of the fragments, and no read of a fragment fails,
  the merged output is the first \<open>999 * size\<close> bytes of the input only: every fragment
  beyond the 999th is left out without an error.
\<close>

theorem split_file_beyond_999:
  assumes "open_rb env large_file_path source = Inr content"
    and "os_makedirs env fragments_dir = None"
    and "0 < fragment_size_bytes"
    and "fragment_size_bytes < 2 ^ 63"
    and "read_buffer_error env fragment_size_bytes = None"
    and "999 * nat fragment_size_bytes < length content"
    and "\<forall>i<length (chunks (nat fragment_size_bytes) content).
           \<not> write_unit_fails env frags
               (os_path_join fragments_dir
                  (fragment_name (os_path_basename large_file_path) (Suc i)))"
    and "\<forall>f\<in>dom frags. is_fragment (os_path_basename large_file_path) f \<longrightarrow>
           (\<exists>i<length (chunks (nat fragment_size_bytes) content).
              f = fragment_name (os_path_basename large_file_path) (Suc i))"
    and "distinct listing"
    and "set listing = dom (expected_fragments frags (os_path_basename large_file_path)
                             (nat fragment_size_bytes) content)"
    and "os_makedirs env (os_path_dirname output_file_path) = None"
    and "open_wb env output_file_path = None"
    and "\<forall>i<length (chunks (nat fragment_size_bytes) content).
           \<not> aliases env output_file_path
               (os_path_join fragments_dir
                  (fragment_name (os_path_basename large_file_path) (Suc i)))"
    and "\<forall>i<length (chunks (nat fragment_size_bytes) content).
           \<not> read_fails env
               (os_path_join fragments_dir
                  (fragment_name (os_path_basename large_file_path) (Suc i)))"
  shows "split_file env source frags large_file_path fragments_dir fragment_size_bytes
         = Inr (fragments_dir, expected_fragments frags (os_path_basename large_file_path)
                                 (nat fragment_size_bytes) content)
       \<and> 1000 \<le> length (chunks (nat fragment_size_bytes) content)
       \<and> (1000 \<le> N \<and> N \<le> length (chunks (nat fragment_size_bytes) content) \<longrightarrow>
            expected_fragments frags (os_path_basename large_file_path)
                (nat fragment_size_bytes) content
                (os_path_basename large_file_path @ ''.part'' @ decimal N)
              = Some (File (chunks (nat fragment_size_bytes) content ! (N - 1)))
            \<and> 4 \<le> length (decimal N)
            \<and> (N < 10000 \<longrightarrow> length (decimal N) = 4)
            \<and> \<not> is_fragment prefix' (os_path_basename large_file_path @ ''.part'' @ decimal N))
       \<and> merge_files env
           (Some (expected_fragments frags (os_path_basename large_file_path)
                    (nat fragment_size_bytes) content))
           (Inr listing) fragments_dir (os_path_basename large_file_path) output_file_path
         = Some (Inr (take (999 * nat fragment_size_bytes) content))
       \<and> length (take (999 * nat fragment_size_bytes) content) < length content"
proof (intro conjI)
  have n: "0 < nat fragment_size_bytes" using assms(3) by simp
  have ne: "content \<noteq> []" using assms(6) by auto
  show "split_file env source frags large_file_path fragments_dir fragment_size_bytes
         = Inr (fragments_dir, expected_fragments frags (os_path_basename large_file_path)
                                 (nat fragment_size_bytes) content)"
    using assms(1-5) ne assms(7) by (rule split_file_expected)
  have "\<not> length (chunks (nat fragment_size_bytes) content) \<le> 999"
    using length_chunks_le [OF n, of content 999] assms(6) by simp
  then show "1000 \<le> length (chunks (nat fragment_size_bytes) content)" by linarith
  show "1000 \<le> N \<and> N \<le> length (chunks (nat fragment_size_bytes) content) \<longrightarrow>
            expected_fragments frags (os_path_basename large_file_path)
                (nat fragment_size_bytes) content
                (os_path_basename large_file_path @ ''.part'' @ decimal N)
              = Some (File (chunks (nat fragment_size_bytes) content ! (N - 1)))
            \<and> 4 \<le> length (decimal N)
            \<and> (N < 10000 \<longrightarrow> length (decimal N) = 4)
            \<and> \<not> is_fragment prefix' (os_path_basename large_file_path @ ''.part'' @ decimal N)"
  proof
    assume "1000 \<le> N \<and> N \<le> length (chunks (nat fragment_size_bytes) content)"
    then have "1000 \<le> N" and "N \<le> length (chunks (nat fragment_size_bytes) content)"
      by simp_all
    then show "expected_fragments frags (os_path_basename large_file_path)
                (nat fragment_size_bytes) content
                (os_path_basename large_file_path @ ''.part'' @ decimal N)
              = Some (File (chunks (nat fragment_size_bytes) content ! (N - 1)))
            \<and> 4 \<le> length (decimal N)
            \<and> (N < 10000 \<longrightarrow> length (decimal N) = 4)
            \<and> \<not> is_fragment prefix' (os_path_basename large_file_path @ ''.part'' @ decimal N)"
      by (rule large_fragment)
  qed
  have pe: "path_error fragments_dir = None" using assms(2) by (rule os_makedirs_None)
  have rd: "\<forall>i<length (chunks (nat fragment_size_bytes) content).
              path_error (os_path_join fragments_dir
                  (fragment_name (os_path_basename large_file_path) (Suc i))) = None
              \<and> \<not> read_fails env (os_path_join fragments_dir
                  (fragment_name (os_path_basename large_file_path) (Suc i)))"
    using assms(7,14) write_unit_path_error by blast
  show "merge_files env
           (Some (expected_fragments frags (os_path_basename large_file_path)
                    (nat fragment_size_bytes) content))
           (Inr listing) fragments_dir (os_path_basename large_file_path) output_file_path
         = Some (Inr (take (999 * nat fragment_size_bytes) content))"
    using n ne assms(8) basename_no_slash assms(9,10) pe assms(11-13) rd
    by (rule merge_after_split)
  show "length (take (999 * nat fragment_size_bytes) content) < length content"
    using assms(6) by simp
qed


theorem split_file_beyond_999_witness:
  "open_rb friendly_os ''/tmp/backup.zip'' (Some (File (replicate 1000 7)))
     = Inr (replicate 1000 7)
   \<and> os_makedirs friendly_os ''/tmp/backup_fragments'' = None
   \<and> (0::int) < 1 \<and> (1::int) < 2 ^ 63
   \<and> read_buffer_error friendly_os 1 = None
   \<and> 999 * nat 1 < length (replicate 1000 (7::byte))
   \<and> is_fragment ''backup.zip'' ''backup.zip.part001''
   \<and> stale_fragments_dir ''backup.zip.part001'' = Some (File [9])
   \<and> os_makedirs friendly_os (os_path_dirname ''/tmp/restore/backup.zip'') = None
   \<and> open_wb friendly_os ''/tmp/restore/backup.zip'' = None
   \<and> split_file friendly_os (Some (File (replicate 1000 7))) stale_fragments_dir
        ''/tmp/backup.zip'' ''/tmp/backup_fragments'' 1
      = Inr (''/tmp/backup_fragments'',
             expected_fragments stale_fragments_dir ''backup.zip'' (Suc 0) (replicate 1000 7))
   \<and> expected_fragments stale_fragments_dir ''backup.zip'' (Suc 0) (replicate 1000 7)
        ''backup.zip.part1000'' = Some (File [7])
   \<and> length (decimal 1000) = 4
   \<and> \<not> is_fragment ''backup.zip'' ''backup.zip.part1000''
   \<and> merge_files friendly_os
        (Some (expected_fragments stale_fragments_dir ''backup.zip'' (Suc 0) (replicate 1000 7)))
        (Inr (''notes.txt'' # map (\<lambda>i. fragment_name ''backup.zip'' (Suc i)) [0..<1000]))
        ''/tmp/backup_fragments'' ''backup.zip'' ''/tmp/restore/backup.zip''
      = Some (Inr (replicate 999 7))"
proof -
  let ?content = "replicate 1000 (7::byte)"
  let ?listing = "''notes.txt'' # map (\<lambda>i. fragment_name ''backup.zip'' (Suc i)) [0..<1000]"
  have b: "os_path_basename ''/tmp/backup.zip'' = ''backup.zip''" by (rule example_basenames)
  have n1: "nat 1 = Suc 0" by simp
  have len: "length (chunks (Suc 0) ?content) = 1000" by (simp add: chunks_one)
  have h1: "open_rb friendly_os ''/tmp/backup.zip'' (Some (File ?content)) = Inr ?content"
    by (rule open_backup_zip)
  have h2: "os_makedirs friendly_os ''/tmp/backup_fragments'' = None"
    by (rule makedirs_examples)
  have h3: "(0::int) < 1" and h4: "(1::int) < 2 ^ 63" by simp_all
  have h5: "read_buffer_error friendly_os 1 = None" by (rule friendly_os_simps)
  have h6: "999 * nat 1 < length ?content" by simp
  have h7: "\<forall>i<length (chunks (nat 1) ?content).
              \<not> write_unit_fails friendly_os stale_fragments_dir
                  (os_path_join ''/tmp/backup_fragments''
                     (fragment_name (os_path_basename ''/tmp/backup.zip'') (Suc i)))"
    unfolding b n1 len
  proof (intro allI impI)
    fix i :: nat
    assume "i < 1000"
    then have "Suc i < 100000" by linarith
    then show "\<not> write_unit_fails friendly_os stale_fragments_dir
                  (os_path_join ''/tmp/backup_fragments'' (fragment_name ''backup.zip'' (Suc i)))"
      using stale_fragments_files by (rule backup_fragment_write_files)
  qed
  have h8: "\<forall>f\<in>dom stale_fragments_dir.
              is_fragment (os_path_basename ''/tmp/backup.zip'') f \<longrightarrow>
              (\<exists>i<length (chunks (nat 1) ?content).
                 f = fragment_name (os_path_basename ''/tmp/backup.zip'') (Suc i))"
    unfolding b n1 len by (rule stale_entries_rewritten) simp
  have nt: "''notes.txt'' \<noteq> fragment_name ''backup.zip'' i" for i
    by (simp add: fragment_name_def)
  have h9: "distinct ?listing"
    using distinct_fragment_names [of "''backup.zip''" 1000] nt by auto
  have p1: "''backup.zip.part001'' \<in> (\<lambda>i. fragment_name ''backup.zip'' (Suc i)) ` {0..<1000}"
    by (rule image_eqI [of _ _ 0]) (simp_all add: backup_zip_names)
  have h10: "set ?listing
             = dom (expected_fragments stale_fragments_dir
                      (os_path_basename ''/tmp/backup.zip'') (nat 1) ?content)"
    unfolding expected_fragments_dom b n1 len using p1
    by (auto simp: stale_fragments_dir_def)
  have h11: "os_makedirs friendly_os (os_path_dirname ''/tmp/restore/backup.zip'') = None"
    by (simp add: example_dirnames makedirs_examples)
  have h12: "open_wb friendly_os ''/tmp/restore/backup.zip'' = None"
    by (rule open_wb_examples)
  have h13: "\<forall>i<length (chunks (nat 1) ?content).
               \<not> aliases friendly_os ''/tmp/restore/backup.zip''
                   (os_path_join ''/tmp/backup_fragments''
                      (fragment_name (os_path_basename ''/tmp/backup.zip'') (Suc i)))"
    unfolding b by (intro allI impI backup_fragment_no_alias)
  have h14: "\<forall>i<length (chunks (nat 1) ?content).
               \<not> read_fails friendly_os
                   (os_path_join ''/tmp/backup_fragments''
                      (fragment_name (os_path_basename ''/tmp/backup.zip'') (Suc i)))"
    by (simp add: friendly_os_simps)
  have st: "stale_fragments_dir ''backup.zip.part001'' = Some (File [9])"
    by (simp add: stale_fragments_dir_def)
  have p001: "is_fragment ''backup.zip'' ''backup.zip.part001''"
    using is_fragment_fragment_name [of "''backup.zip''" "Suc 0"]
    unfolding backup_zip_names by simp
  have nth: "chunks (Suc 0) ?content ! (1000 - 1) = [7]"
    by (simp add: chunks_one)
  have tk: "take (999 * Suc 0) ?content = replicate 999 7"
    by simp
  have k: "(1000::nat) \<le> 1000 \<and> 1000 \<le> length (chunks (Suc 0) ?content)"
    using len by simp
  have name: "''backup.zip'' @ ''.part'' @ decimal 1000 = ''backup.zip.part1000''"
    by (simp add: decimal_1000)
  have lt: "(1000::nat) < 10000" by simp
  have main: "split_file friendly_os (Some (File ?content)) stale_fragments_dir
        ''/tmp/backup.zip'' ''/tmp/backup_fragments'' 1
      = Inr (''/tmp/backup_fragments'',
             expected_fragments stale_fragments_dir ''backup.zip'' (Suc 0) ?content)
     \<and> expected_fragments stale_fragments_dir ''backup.zip'' (Suc 0) ?content
        ''backup.zip.part1000'' = Some (File [7])
     \<and> length (decimal 1000) = 4
     \<and> \<not> is_fragment ''backup.zip'' ''backup.zip.part1000''
     \<and> merge_files friendly_os
        (Some (expected_fragments stale_fragments_dir ''backup.zip'' (Suc 0) ?content))
        (Inr ?listing) ''/tmp/backup_fragments'' ''backup.zip'' ''/tmp/restore/backup.zip''
      = Some (Inr (replicate 999 7))"
    using split_file_beyond_999 [OF h1 h2 h3 h4 h5 h6 h7 h8 h9 h10 h11 h12 h13 h14,
        of 1000 "''backup.zip''"] k lt
    unfolding b n1 tk name nth
    by (simp only: simp_thms)
  show ?thesis
    using h1 h2 h3 h4 h5 h6 p001 st h11 h12 main by (simp only: simp_thms)
qed

end
